theory Spec2Isabelle
  imports Main
begin

section \<open>The Appwrite helper module: connection gate, cache, batch manager, retry\<close>

text \<open>
  The module is asynchronous JavaScript running on a single-threaded event loop.
  The embedding keeps the module's mutable variables in one record (\<open>world\<close>) and
  writes every \<^verbatim>\<open>async\<close> function as a tree of synchronous reads and writes of that
  record, interrupted by \<open>Await\<close> nodes at the places where the source really waits
  for the outside world: a call of the Appwrite SDK or a \<^verbatim>\<open>setTimeout\<close> promise.
  Awaiting an \<^verbatim>\<open>async\<close> function of the module itself does not let a timer or an
  I/O callback run before the callee reaches such a place (promise reactions are
  microtasks), so those awaits are plain sequencing (\<open>bind\<close>).

  Values thrown are \<^verbatim>\<open>Error\<close> objects (\<^verbatim>\<open>message\<close>, optional numeric \<^verbatim>\<open>code\<close>),
  documents and patches are objects of fields, and \<^verbatim>\<open>listDocuments\<close> resolves to a
  list of documents, as the SDK declares them.
\<close>

datatype jsval = JStr string | JNum int | JBool bool | JNull

type_synonym obj = "string \<rightharpoonup> jsval"

datatype error = Error (message: string) (code: "int option")

datatype request =
    ListCollections
  | UpdateDocument "jsval option" obj
  | ListDocuments string
  | Sleep nat

datatype response = Resolved "obj list" | Rejected error

datatype logrec =
    CheckFailed string
  | RetryWarn string nat nat string
  | RetryExhausted string
  | Requeued
  | BatchFailed string string

record entry =
  data :: obj
  timestamp :: int

type_synonym dcache = "string \<rightharpoonup> entry"

record world =
  clock :: int
  isDbConnected :: bool
  connectionCheckInProgress :: bool
  lastConnectionCheck :: int
  cache :: dcache
  pendingUpdates :: "(string \<times> obj) list"
  batchTimeout :: "nat option"
  timers :: "(nat \<times> int) list"
  nextHandle :: nat
  logs :: "logrec list"
  issued :: "request list"

text \<open>
  \<open>clock\<close> is what \<^verbatim>\<open>Date.now()\<close> returns. \<open>timers\<close> are the armed
  \<^verbatim>\<open>setTimeout(() => this.processBatch(), d)\<close> timers with their due times,
  \<open>batchTimeout\<close> the handle the manager remembers. \<open>issued\<close> lists the requests
  awaited so far (SDK calls and backoff sleeps), in order.
\<close>

abbreviation CONNECTION_CHECK_INTERVAL :: int where "CONNECTION_CHECK_INTERVAL \<equiv> 5000"
abbreviation MAX_RETRIES :: nat where "MAX_RETRIES \<equiv> 3"
abbreviation INITIAL_RETRY_DELAY :: nat where "INITIAL_RETRY_DELAY \<equiv> 1000"
abbreviation CACHE_LIFETIME :: int where "CACHE_LIFETIME \<equiv> 60000"

subsection \<open>JavaScript \<^verbatim>\<open>Map\<close> in insertion order\<close>

fun js_set :: "string \<Rightarrow> 'v \<Rightarrow> (string \<times> 'v) list \<Rightarrow> (string \<times> 'v) list" where
  "js_set k v [] = [(k, v)]"
| "js_set k v ((k', v') # ps) = (if k' = k then (k, v) # ps else (k', v') # js_set k v ps)"

definition js_get :: "(string \<times> 'v) list \<Rightarrow> string \<Rightarrow> 'v option" where
  "js_get ps k = map_of ps k"

definition js_has :: "(string \<times> 'v) list \<Rightarrow> string \<Rightarrow> bool" where
  "js_has ps k = (map_of ps k \<noteq> None)"

subsection \<open>Asynchronous functions as trees\<close>

datatype 'a task =
    Return 'a
  | Throw error
  | Read "world \<Rightarrow> 'a task"
  | Write "world \<Rightarrow> world" "'a task"
  | Await request "response \<Rightarrow> 'a task"

primrec bind :: "'a task \<Rightarrow> ('a \<Rightarrow> 'b task) \<Rightarrow> 'b task" where
  "bind (Return a) f = f a"
| "bind (Throw e) f = Throw e"
| "bind (Read g) f = Read (\<lambda>w. bind (g w) f)"
| "bind (Write u t) f = Write u (bind t f)"
| "bind (Await r k) f = Await r (\<lambda>x. bind (k x) f)"

primrec tcatch :: "'a task \<Rightarrow> (error \<Rightarrow> 'a task) \<Rightarrow> 'a task" where
  "tcatch (Return a) h = Return a"
| "tcatch (Throw e) h = h e"
| "tcatch (Read g) h = Read (\<lambda>w. tcatch (g w) h)"
| "tcatch (Write u t) h = Write u (tcatch t h)"
| "tcatch (Await r k) h = Await r (\<lambda>x. tcatch (k x) h)"

text \<open>An SDK call: the promise resolves to a value or rejects with an error.\<close>

definition remote :: "request \<Rightarrow> (obj list) task" where
  "remote r = Await r (\<lambda>x. case x of Resolved v \<Rightarrow> Return v | Rejected e \<Rightarrow> Throw e)"

text \<open>\<^verbatim>\<open>await new Promise((resolve) => setTimeout(resolve, delay))\<close>: never rejects.\<close>

definition sleep :: "nat \<Rightarrow> unit task" where
  "sleep d = Await (Sleep d) (\<lambda>x. Return ())"

subsection \<open>\<^verbatim>\<open>checkDatabaseConnection\<close> and \<^verbatim>\<open>withDatabaseCheck\<close>\<close>

definition checkDatabaseConnection :: "bool task" where
  "checkDatabaseConnection =
     Read (\<lambda>w.
       if connectionCheckInProgress w then Return (isDbConnected w)
       else if clock w - lastConnectionCheck w < CONNECTION_CHECK_INTERVAL
         then Return (isDbConnected w)
       else
         Write (\<lambda>w. w\<lparr>connectionCheckInProgress := True\<rparr>)
           (Await ListCollections (\<lambda>x.
              (case x of
                 Resolved v \<Rightarrow>
                   Write (\<lambda>w. w\<lparr>isDbConnected := True, lastConnectionCheck := clock w\<rparr>)
               | Rejected e \<Rightarrow>
                   Write (\<lambda>w. w\<lparr>isDbConnected := False,
                                  logs := logs w @ [CheckFailed (message e)]\<rparr>))
              (Write (\<lambda>w. w\<lparr>connectionCheckInProgress := False\<rparr>)
                 (Read (\<lambda>w. Return (isDbConnected w)))))))"

definition connectionError :: error where
  "connectionError = Error ''Database connection is not available'' None"

definition withDatabaseCheck :: "'a task \<Rightarrow> 'a task" where
  "withDatabaseCheck operation =
     bind checkDatabaseConnection (\<lambda>ok.
       if \<not> ok then Throw connectionError else operation)"

subsection \<open>\<^verbatim>\<open>DocumentCache\<close>\<close>

definition DocumentCache_set :: "string \<Rightarrow> obj \<Rightarrow> int \<Rightarrow> dcache \<Rightarrow> dcache" where
  "DocumentCache_set userId document now c =
     c(userId \<mapsto> \<lparr>data = document, timestamp = now\<rparr>)"

definition DocumentCache_get :: "string \<Rightarrow> int \<Rightarrow> dcache \<Rightarrow> obj option \<times> dcache" where
  "DocumentCache_get userId now c =
     (case c userId of
        None \<Rightarrow> (None, c)
      | Some e \<Rightarrow>
          if now - timestamp e > CACHE_LIFETIME then (None, c(userId := None))
          else (Some (data e), c))"

definition DocumentCache_invalidate :: "string \<Rightarrow> dcache \<Rightarrow> dcache" where
  "DocumentCache_invalidate userId c = c(userId := None)"

definition DocumentCache_clear :: "dcache \<Rightarrow> dcache" where
  "DocumentCache_clear c = Map.empty"

subsection \<open>\<^verbatim>\<open>withRetry\<close>\<close>

text \<open>
  The \<^verbatim>\<open>for\<close> loop from the iteration with counter \<open>attempt\<close> on; the code after the
  \<^verbatim>\<open>catch\<close> block (the next iterations, the final \<^verbatim>\<open>throw\<close>) is the handler's
  continuation. \<open>lastError\<close> is \<open>None\<close> while the variable is still undefined, which
  the final \<^verbatim>\<open>throw\<close> never sees.
\<close>

function withRetry_from ::
  "nat \<Rightarrow> nat \<Rightarrow> error option \<Rightarrow> 'a task \<Rightarrow> string \<Rightarrow> 'a task" where
  "withRetry_from attempt delay lastError operation context =
     (if attempt \<le> MAX_RETRIES then
        tcatch operation (\<lambda>error.
          if code error = Some 400 \<or> code error = Some 404 then Throw error
          else if attempt < MAX_RETRIES then
            Write (\<lambda>w. w\<lparr>logs := logs w @ [RetryWarn context attempt delay (message error)]\<rparr>)
              (bind (sleep delay) (\<lambda>u.
                 withRetry_from (attempt + 1) (delay * 2) (Some error) operation context))
          else withRetry_from (attempt + 1) delay (Some error) operation context)
      else
        Write (\<lambda>w. w\<lparr>logs := logs w @ [RetryExhausted context]\<rparr>)
          (case lastError of Some e \<Rightarrow> Throw e | None \<Rightarrow> Throw (Error ''undefined'' None)))"
  by pat_completeness auto
termination
  by (relation "measure (\<lambda>(attempt, delay, lastError, operation, context). 4 - attempt)") auto

declare withRetry_from.simps [simp del]

definition withRetry :: "'a task \<Rightarrow> string \<Rightarrow> 'a task" where
  "withRetry operation context = withRetry_from 1 INITIAL_RETRY_DELAY None operation context"

subsection \<open>\<^verbatim>\<open>BatchUpdateManager\<close>\<close>

definition setTimeout_processBatch :: "nat \<Rightarrow> world \<Rightarrow> world" where
  "setTimeout_processBatch d w =
     w\<lparr>timers := timers w @ [(nextHandle w, clock w + int d)],
       batchTimeout := Some (nextHandle w),
       nextHandle := nextHandle w + 1\<rparr>"

definition queueUpdate :: "string \<Rightarrow> obj \<Rightarrow> world \<Rightarrow> world" where
  "queueUpdate userId flds w =
     (let existing = (case js_get (pendingUpdates w) userId of Some e \<Rightarrow> e | None \<Rightarrow> Map.empty);
          w1 = w\<lparr>pendingUpdates := js_set userId (existing ++ flds) (pendingUpdates w)\<rparr>
      in if batchTimeout w1 = None then setTimeout_processBatch 100 w1 else w1)"

text \<open>The re-queue loop of the \<^verbatim>\<open>catch\<close> block, over the entries of \<open>updates\<close>.\<close>

fun requeue :: "string \<Rightarrow> (string \<times> obj) list \<Rightarrow> (string \<times> obj) list \<Rightarrow> (string \<times> obj) list" where
  "requeue userId [] pending = pending"
| "requeue userId ((remainingUserId, remainingFields) # rest) pending =
     requeue userId rest
       (if remainingUserId = userId \<or> \<not> js_has pending remainingUserId
        then js_set remainingUserId remainingFields pending else pending)"

definition updateDocument :: "jsval option \<Rightarrow> obj \<Rightarrow> string \<Rightarrow> unit task" where
  "updateDocument docId flds userId =
     withRetry
       (bind (withDatabaseCheck (remote (UpdateDocument docId flds))) (\<lambda>r. Return ()))
       (''Batch update for user '' @ userId)"

definition fetchDocument :: "string \<Rightarrow> (obj list) task" where
  "fetchDocument userId =
     withRetry (withDatabaseCheck (remote (ListDocuments userId)))
       (''Fetch document for batch update '' @ userId)"

text \<open>The body of the \<^verbatim>\<open>try\<close> block for one entry of the snapshot.\<close>

definition processEntry :: "string \<Rightarrow> obj \<Rightarrow> unit task" where
  "processEntry userId flds =
     Read (\<lambda>w0.
       Write (\<lambda>w. w\<lparr>cache := snd (DocumentCache_get userId (clock w0) (cache w0))\<rparr>)
         (case fst (DocumentCache_get userId (clock w0) (cache w0)) of
            Some cachedDoc \<Rightarrow>
              bind (updateDocument (cachedDoc ''$id'') flds userId) (\<lambda>u.
                Write (\<lambda>w. w\<lparr>cache :=
                  DocumentCache_set userId (cachedDoc ++ flds) (clock w) (cache w)\<rparr>)
                  (Return ()))
          | None \<Rightarrow>
              bind (fetchDocument userId) (\<lambda>documents.
                case documents of
                  [] \<Rightarrow> Return ()
                | d # ds \<Rightarrow>
                    bind (updateDocument (d ''$id'') flds userId) (\<lambda>u.
                      Write (\<lambda>w. w\<lparr>cache :=
                        DocumentCache_set userId (d ++ flds) (clock w) (cache w)\<rparr>)
                        (Return ())))))"

datatype loop_exit = Continue | Break

text \<open>
  The \<^verbatim>\<open>for (const [userId, fields] of updates)\<close> loop over the entries still to
  visit; \<open>updates\<close> is the whole snapshot, which the re-queue loop iterates again.
\<close>

fun batchLoop :: "(string \<times> obj) list \<Rightarrow> (string \<times> obj) list \<Rightarrow> unit task" where
  "batchLoop updates [] = Return ()"
| "batchLoop updates ((userId, flds) # rest) =
     bind
       (tcatch (bind (processEntry userId flds) (\<lambda>u. Return Continue))
          (\<lambda>error.
             if message error = ''Database connection is not available'' then
               Write (\<lambda>w. w\<lparr>pendingUpdates := requeue userId updates (pendingUpdates w)\<rparr>)
                 (Write (\<lambda>w. w\<lparr>logs := logs w @ [Requeued]\<rparr>)
                    (Write (setTimeout_processBatch 5000) (Return Break)))
             else
               Write (\<lambda>w. w\<lparr>logs := logs w @ [BatchFailed userId (message error)]\<rparr>)
                 (Return Continue)))
       (\<lambda>x. case x of Break \<Rightarrow> Return () | Continue \<Rightarrow> batchLoop updates rest)"

definition processBatch :: "unit task" where
  "processBatch =
     Read (\<lambda>w0.
       if pendingUpdates w0 = [] then Return ()
       else
         Write (\<lambda>w. w\<lparr>pendingUpdates := [], batchTimeout := None\<rparr>)
           (batchLoop (pendingUpdates w0) (pendingUpdates w0)))"

section \<open>Running the trees\<close>

subsection \<open>One asynchronous call with nothing else going on\<close>

text \<open>
  The outside world is an oracle: the \<open>n\<close>-th request awaited takes \<open>elapsed\<close>
  milliseconds and settles with \<open>outcome\<close>. A sleep of \<open>d\<close> takes \<open>d\<close> plus the
  oracle's \<open>elapsed\<close> (a timer is never early) and always resolves.
\<close>

record reply =
  elapsed :: nat
  outcome :: response

definition settle :: "(nat \<Rightarrow> reply) \<Rightarrow> request \<Rightarrow> world \<Rightarrow> response \<times> world" where
  "settle env r w =
     (let rep = env (length (issued w)) in
      (case r of Sleep d \<Rightarrow> Resolved [] | _ \<Rightarrow> outcome rep,
       w\<lparr>clock := clock w + int (elapsed rep) + (case r of Sleep d \<Rightarrow> int d | _ \<Rightarrow> 0),
         issued := issued w @ [r]\<rparr>))"

primrec exec :: "(nat \<Rightarrow> reply) \<Rightarrow> 'a task \<Rightarrow> world \<Rightarrow> (error + 'a) \<times> world" where
  "exec env (Return a) w = (Inr a, w)"
| "exec env (Throw e) w = (Inl e, w)"
| "exec env (Read g) w = exec env (g w) w"
| "exec env (Write u t) w = exec env t (u w)"
| "exec env (Await r k) w = exec env (k (fst (settle env r w))) (snd (settle env r w))"

subsection \<open>The event loop\<close>

text \<open>
  \<open>run_sync\<close> runs a tree up to its next \<open>Await\<close> (or its end): one uninterrupted
  stretch of JavaScript.
\<close>

primrec run_sync :: "'a task \<Rightarrow> world \<Rightarrow> world \<times> 'a task" where
  "run_sync (Return a) w = (w, Return a)"
| "run_sync (Throw e) w = (w, Throw e)"
| "run_sync (Read g) w = run_sync (g w) w"
| "run_sync (Write u t) w = run_sync t (u w)"
| "run_sync (Await r k) w = (w, Await r k)"

text \<open>What a suspended tree runs on with, once its request has settled with \<open>x\<close>.\<close>

fun resumed :: "'a task \<Rightarrow> response \<Rightarrow> 'a task" where
  "resumed (Await r k) x = k x"
| "resumed t x = t"

text \<open>
  A configuration of the event loop: the module's state and the flush passes that
  are suspended at an \<open>Await\<close>, each with the time at which it was suspended.
  Events: a caller invokes \<^verbatim>\<open>queueUpdate\<close>; time passes; an armed timer that is due
  fires and starts \<^verbatim>\<open>processBatch\<close>; the request a suspended pass awaits settles
  (a sleep not before its delay has passed) and the pass runs on.
\<close>

record config =
  shared :: world
  suspended :: "(int \<times> unit task) list"

datatype event =
    QueueUpdate string obj
  | Tick nat
  | Fire nat
  | Settle nat response

definition park :: "int \<Rightarrow> unit task \<Rightarrow> (int \<times> unit task) list" where
  "park since t = (case t of Await r k \<Rightarrow> [(since, t)] | _ \<Rightarrow> [])"

definition note_request :: "unit task \<Rightarrow> world \<Rightarrow> world" where
  "note_request t w = (case t of Await r k \<Rightarrow> w\<lparr>issued := issued w @ [r]\<rparr> | _ \<Rightarrow> w)"

definition start_pass :: "config \<Rightarrow> config" where
  "start_pass c =
     (let (w, t) = run_sync processBatch (shared c) in
      c\<lparr>shared := note_request t w, suspended := suspended c @ park (clock w) t\<rparr>)"

definition resume :: "nat \<Rightarrow> unit task \<Rightarrow> config \<Rightarrow> config" where
  "resume i t c =
     (let (w, t') = run_sync t (shared c) in
      c\<lparr>shared := note_request t' w,
        suspended := take i (suspended c) @ park (clock w) t' @ drop (Suc i) (suspended c)\<rparr>)"

definition step :: "event \<Rightarrow> config \<Rightarrow> config option" where
  "step ev c =
     (case ev of
        QueueUpdate userId patch \<Rightarrow> Some (c\<lparr>shared := queueUpdate userId patch (shared c)\<rparr>)
      | Tick d \<Rightarrow> Some (c\<lparr>shared := (shared c)\<lparr>clock := clock (shared c) + int d\<rparr>\<rparr>)
      | Fire h \<Rightarrow>
          (case map_of (timers (shared c)) h of
             None \<Rightarrow> None
           | Some due \<Rightarrow>
               if clock (shared c) < due then None
               else Some (start_pass
                 (c\<lparr>shared := (shared c)\<lparr>timers := filter (\<lambda>p. fst p \<noteq> h) (timers (shared c))\<rparr>\<rparr>)))
      | Settle i x \<Rightarrow>
          (if i < length (suspended c) then
             (case suspended c ! i of
                (since, Await (Sleep d) k) \<Rightarrow>
                  if clock (shared c) < since + int d then None
                  else Some (resume i (k (Resolved [])) c)
              | (since, Await r k) \<Rightarrow> Some (resume i (k x) c)
              | _ \<Rightarrow> None)
           else None))"

fun run :: "event list \<Rightarrow> config \<Rightarrow> config option" where
  "run [] c = Some c"
| "run (ev # evs) c = (case step ev c of None \<Rightarrow> None | Some c' \<Rightarrow> run evs c')"

subsection \<open>Scenarios\<close>

text \<open>
  The state of a freshly loaded module at time \<open>now\<close>, and two outside worlds: one
  where every SDK call is answered after 10ms, one where every SDK call fails.
\<close>

definition initial :: "int \<Rightarrow> world" where
  "initial now =
     \<lparr>clock = now, isDbConnected = False, connectionCheckInProgress = False,
      lastConnectionCheck = 0, cache = Map.empty, pendingUpdates = [],
      batchTimeout = None, timers = [], nextHandle = 0, logs = [], issued = []\<rparr>"

definition reachable_store :: "nat \<Rightarrow> reply" where
  "reachable_store n = \<lparr>elapsed = 10, outcome = Resolved []\<rparr>"

definition unreachable_store :: "nat \<Rightarrow> reply" where
  "unreachable_store n = \<lparr>elapsed = 10, outcome = Rejected (Error ''fetch failed'' None)\<rparr>"

definition flaky_store :: "nat \<Rightarrow> reply" where
  "flaky_store n =
     \<lparr>elapsed = 10,
      outcome = (if n = 0 \<or> n = 2 then Rejected (Error ''fetch failed'' None) else Resolved [])\<rparr>"

definition recovering_store :: "nat \<Rightarrow> reply" where
  "recovering_store n =
     \<lparr>elapsed = 10,
      outcome = (if n = 0 then Rejected (Error ''fetch failed'' None) else Resolved [])\<rparr>"

definition invalid_store :: "nat \<Rightarrow> reply" where
  "invalid_store n =
     \<lparr>elapsed = 10, outcome = Rejected (Error ''Invalid document structure'' (Some 400))\<rparr>"

definition slow_then_down :: "nat \<Rightarrow> reply" where
  "slow_then_down n =
     (if n = 0 then \<lparr>elapsed = 6000, outcome = Resolved []\<rparr>
      else \<lparr>elapsed = 10, outcome = Rejected (Error ''fetch failed'' None)\<rparr>)"

definition sample_update :: "(obj list) task" where
  "sample_update = remote (UpdateDocument (Some (JStr ''doc1'')) [''guild'' \<mapsto> JStr ''g2''])"

text \<open>
  A manager whose timer has just fired with two pending entries; the document of
  \<open>A\<close> is cached and the connection was checked successfully at that moment.
\<close>

definition two_pending :: world where
  "two_pending =
     \<lparr>clock = 1000000, isDbConnected = True, connectionCheckInProgress = False,
      lastConnectionCheck = 1000000,
      cache = [''A'' \<mapsto> \<lparr>data = [''$id'' \<mapsto> JStr ''docA''], timestamp = 1000000\<rparr>],
      pendingUpdates = [(''A'', [''guild'' \<mapsto> JStr ''g1'']), (''B'', [''guild'' \<mapsto> JStr ''g2''])],
      batchTimeout = Some 0, timers = [], nextHandle = 1, logs = [], issued = []\<rparr>"

text \<open>A freshly loaded module, one update queued, its 100ms timer just fired.\<close>

definition one_pending :: world where
  "one_pending =
     (initial 1000100)\<lparr>pendingUpdates := [(''u1'', [''guild'' \<mapsto> JStr ''g1''])],
       batchTimeout := Some 0, nextHandle := 1\<rparr>"

text \<open>
  The same manager in a module that believes it is connected: in \<open>gate_open\<close> the
  last successful connection check was made at this very moment, in \<open>gate_expiring\<close>
  4500ms ago.
\<close>

definition gate_open :: world where
  "gate_open = one_pending\<lparr>isDbConnected := True, lastConnectionCheck := 1000100\<rparr>"

definition gate_expiring :: world where
  "gate_expiring = one_pending\<lparr>isDbConnected := True, lastConnectionCheck := 995600\<rparr>"

text \<open>
  The event loop of a freshly loaded module, and a store that answers every request
  with a network error. \<open>stretch\<close> lets \<open>d\<close> milliseconds pass and resumes a
  suspended pass with \<open>x\<close>; \<open>third_probe\<close> is the pass over \<open>one_pending\<close> whose
  first two attempts found the store down, suspended in the probe of its third.
\<close>

definition loaded :: config where
  "loaded = \<lparr>shared = initial 1000000, suspended = []\<rparr>"

definition down :: response where
  "down = Rejected (Error ''fetch failed'' None)"

definition stretch :: "world \<times> unit task \<Rightarrow> nat \<Rightarrow> response \<Rightarrow> world \<times> unit task" where
  "stretch wt d x = run_sync (resumed (snd wt) x) ((fst wt)\<lparr>clock := clock (fst wt) + int d\<rparr>)"

definition third_probe :: "world \<times> unit task" where
  "third_probe =
     stretch (stretch (stretch (stretch (run_sync processBatch one_pending)
       50 down) 1000 (Resolved [])) 50 down) 2000 (Resolved [])"

text \<open>
  \<open>lookup\<close> is the pass over \<open>one_pending\<close> whose first probe succeeded after 10ms,
  suspended in the lookup of \<open>u1\<close>; \<open>awaited\<close> is the request a suspended tree is
  waiting for.
\<close>

definition lookup :: "world \<times> unit task" where
  "lookup = stretch (run_sync processBatch one_pending) 10 (Resolved [])"

definition awaited :: "'a task \<Rightarrow> request option" where
  "awaited t = (case t of Await r k \<Rightarrow> Some r | _ \<Rightarrow> None)"

subsection \<open>Vocabulary of the statements\<close>

text \<open>
  What \<open>exec\<close> makes of the \<^verbatim>\<open>catch\<close> block of \<^verbatim>\<open>withRetry\<close> when it retries:
  the warning is logged and the sleep of \<open>delay\<close> milliseconds is awaited.
\<close>

definition backoff ::
  "(nat \<Rightarrow> reply) \<Rightarrow> string \<Rightarrow> nat \<Rightarrow> nat \<Rightarrow> error \<Rightarrow> world \<Rightarrow> world" where
  "backoff env context attempt delay e w =
     snd (settle env (Sleep delay)
       (w\<lparr>logs := logs w @ [RetryWarn context attempt delay (message e)]\<rparr>))"

definition retryable :: "error \<Rightarrow> bool" where
  "retryable e = (code e \<noteq> Some 400 \<and> code e \<noteq> Some 404)"

text \<open>
  \<open>e\<close> is what the third attempt of \<open>operation\<close> threw under \<^verbatim>\<open>withRetry\<close>: a first
  attempt failed, the second was made after the wait of 1000ms and failed, the third
  was made after the wait of 2000ms and threw \<open>e\<close>; \<open>w'\<close> is the world the third
  attempt left behind, with the ``all retry attempts failed'' record.
\<close>

definition third_attempt_threw ::
  "(nat \<Rightarrow> reply) \<Rightarrow> 'a task \<Rightarrow> string \<Rightarrow> error \<Rightarrow> world \<Rightarrow> bool" where
  "third_attempt_threw env operation context e w' =
     (\<exists>v0 e1 v1 e2 v2 v3.
        exec env operation v0 = (Inl e1, v1)
        \<and> exec env operation (backoff env context 1 1000 e1 v1) = (Inl e2, v2)
        \<and> exec env operation (backoff env context 2 2000 e2 v2) = (Inl e, v3)
        \<and> w' = v3\<lparr>logs := logs v3 @ [RetryExhausted context]\<rparr>)"

text \<open>
  The store is unreachable and the gate cannot answer \<^verbatim>\<open>true\<close>: every request is
  rejected, no probe is in flight, and the module either already knows it is
  disconnected or is due for a new probe.
\<close>

definition gate_shut :: "(nat \<Rightarrow> reply) \<Rightarrow> world \<Rightarrow> bool" where
  "gate_shut env w =
     ((\<forall>n. \<exists>e. outcome (env n) = Rejected e) \<and> \<not> connectionCheckInProgress w
      \<and> (\<not> isDbConnected w \<or> CONNECTION_CHECK_INTERVAL \<le> clock w - lastConnectionCheck w))"

definition is_probe_log :: "logrec \<Rightarrow> bool" where
  "is_probe_log l = (case l of CheckFailed m \<Rightarrow> True | _ \<Rightarrow> False)"

text \<open>
  From \<open>w\<close> to \<open>w'\<close> the requests \<open>xs\<close> were awaited and the records \<open>ls\<close> logged,
  and neither the cache nor the manager changed.
\<close>

definition trace :: "world \<Rightarrow> world \<Rightarrow> request list \<Rightarrow> logrec list \<Rightarrow> bool" where
  "trace w w' xs ls =
     (issued w' = issued w @ xs \<and> logs w' = logs w @ ls \<and> cache w' = cache w
      \<and> pendingUpdates w' = pendingUpdates w \<and> batchTimeout w' = batchTimeout w
      \<and> timers w' = timers w \<and> nextHandle w' = nextHandle w)"

text \<open>
  The re-queue branch of the \<^verbatim>\<open>catch\<close> block as one step: the re-queue loop, the
  warning, the 5000ms timer.
\<close>

definition requeued :: "string \<Rightarrow> (string \<times> obj) list \<Rightarrow> world \<Rightarrow> world" where
  "requeued userId updates w =
     setTimeout_processBatch 5000
       (w\<lparr>pendingUpdates := requeue userId updates (pendingUpdates w),
          logs := logs w @ [Requeued]\<rparr>)"

text \<open>
  \<open>pass_cont S t\<close>: \<open>t\<close> is what is left of a flush pass that took the snapshot \<open>S\<close>,
  after its first stretch or after any number of resumptions, whatever the world
  looked like and whatever the requests settled with each time.
\<close>

inductive pass_cont :: "(string \<times> obj) list \<Rightarrow> unit task \<Rightarrow> bool" for S where
  first: "pendingUpdates w = S \<Longrightarrow> S \<noteq> [] \<Longrightarrow> run_sync processBatch w = (w', t)
     \<Longrightarrow> pass_cont S t"
| later: "pass_cont S t \<Longrightarrow> run_sync (resumed t x) w = (w', t') \<Longrightarrow> pass_cont S t'"

text \<open>
  The clock and the manager's own variables are the same in \<open>w\<close> and \<open>w'\<close>; a tree
  is \<open>quiet\<close> when none of its writes changes them.
\<close>

definition same_manager :: "world \<Rightarrow> world \<Rightarrow> bool" where
  "same_manager w w' =
     (clock w' = clock w \<and> pendingUpdates w' = pendingUpdates w \<and> batchTimeout w' = batchTimeout w
      \<and> timers w' = timers w \<and> nextHandle w' = nextHandle w)"

primrec quiet :: "'a task \<Rightarrow> bool" where
  "quiet (Return a) = True"
| "quiet (Throw e) = True"
| "quiet (Read g) = (\<forall>w. quiet (g w))"
| "quiet (Write u t) = ((\<forall>w. same_manager w (u w)) \<and> quiet t)"
| "quiet (Await r k) = (\<forall>x. quiet (k x))"

text \<open>
  A weakest precondition over stretches. \<open>wpr t Q E G R w0 w\<close>: the tree \<open>t\<close>, now
  in world \<open>w\<close> of a stretch that began in \<open>w0\<close>, reaches each suspension with
  \<open>G\<close> between the beginning of the stretch and the suspension, ends a stretch by
  returning with \<open>Q\<close> or by throwing with \<open>E\<close>, provided that every world it is
  resumed in satisfies \<open>R\<close>.
\<close>

primrec wpr ::
  "'a task \<Rightarrow> ('a \<Rightarrow> world \<Rightarrow> world \<Rightarrow> bool) \<Rightarrow> (error \<Rightarrow> world \<Rightarrow> world \<Rightarrow> bool)
     \<Rightarrow> (world \<Rightarrow> world \<Rightarrow> bool) \<Rightarrow> (world \<Rightarrow> bool) \<Rightarrow> world \<Rightarrow> world \<Rightarrow> bool" where
  "wpr (Return a) Q E G R w0 w = Q a w0 w"
| "wpr (Throw e) Q E G R w0 w = E e w0 w"
| "wpr (Read g) Q E G R w0 w = wpr (g w) Q E G R w0 w"
| "wpr (Write u t) Q E G R w0 w = wpr t Q E G R w0 (u w)"
| "wpr (Await r k) Q E G R w0 w = (G w0 w \<and> (\<forall>x w'. R w' \<longrightarrow> wpr (k x) Q E G R w' w'))"

text \<open>
  What a pass sends out for an entry of its snapshot \<open>S\<close>: connection probes,
  backoff sleeps, the lookup of the entry's id, updates that carry the entry's patch.
\<close>

definition entry_request :: "string \<Rightarrow> obj \<Rightarrow> request \<Rightarrow> bool" where
  "entry_request userId flds r =
     (case r of ListCollections \<Rightarrow> True | Sleep d \<Rightarrow> True
      | ListDocuments u \<Rightarrow> u = userId | UpdateDocument docId f \<Rightarrow> f = flds)"

definition from_snapshot :: "(string \<times> obj) list \<Rightarrow> request \<Rightarrow> bool" where
  "from_snapshot S r = (\<exists>(userId, flds) \<in> set S. entry_request userId flds r)"

text \<open>
  A tree that had been waiting for \<open>r\<close> and was resumed with \<open>x\<close> met
  ``Database connection is not available'' before it reached \<open>w\<close>: it had been
  waiting for a connection probe or for a backoff sleep and the gate then refused
  (\<^verbatim>\<open>isDbConnected\<close> is false), or it had been waiting for a remote call and the call
  was rejected with that very message.
\<close>

definition unavailable :: "request \<Rightarrow> response \<Rightarrow> world \<Rightarrow> bool" where
  "unavailable r x w =
     (case r of
        ListCollections \<Rightarrow> \<not> isDbConnected w
      | Sleep d \<Rightarrow> \<not> isDbConnected w
      | _ \<Rightarrow> (\<exists>e. x = Rejected e \<and> message e = ''Database connection is not available''))"

text \<open>
  The same weakest precondition, which also remembers where the stretch comes from:
  \<open>g = (r, x)\<close>, the request the tree had been waiting for and what it settled with.
  \<open>G\<close> sees the request of each suspension.
\<close>

primrec wpx ::
  "'a task \<Rightarrow> (request \<times> response \<Rightarrow> 'a \<Rightarrow> world \<Rightarrow> world \<Rightarrow> bool)
     \<Rightarrow> (request \<times> response \<Rightarrow> error \<Rightarrow> world \<Rightarrow> world \<Rightarrow> bool)
     \<Rightarrow> (request \<Rightarrow> world \<Rightarrow> world \<Rightarrow> bool) \<Rightarrow> request \<times> response \<Rightarrow> world \<Rightarrow> world \<Rightarrow> bool" where
  "wpx (Return a) Q E G g w0 w = Q g a w0 w"
| "wpx (Throw e) Q E G g w0 w = E g e w0 w"
| "wpx (Read h) Q E G g w0 w = wpx (h w) Q E G g w0 w"
| "wpx (Write u t) Q E G g w0 w = wpx t Q E G g w0 (u w)"
| "wpx (Await r k) Q E G g w0 w = (G r w0 w \<and> (\<forall>x w'. wpx (k x) Q E G (r, x) w' w'))"

text \<open>
  Where a thrown error comes from. One attempt of a gated call, begun in a stretch
  that comes from \<open>g0\<close>, throws the gate's error with the gate shut (at once, or
  after its probe), or the rejection of the call itself (\<open>attempt_threw\<close>). What
  leaves \<^verbatim>\<open>withRetry\<close>, and so the \<^verbatim>\<open>try\<close> block of an entry, is the gate's error
  after a probe or a backoff sleep, or the rejection of a call (\<open>entry_threw\<close>).
\<close>

definition attempt_threw ::
  "request \<times> response \<Rightarrow> request \<times> response \<Rightarrow> error \<Rightarrow> world \<Rightarrow> world \<Rightarrow> bool" where
  "attempt_threw g0 g e u v =
     (same_manager u v
      \<and> ((e = connectionError \<and> \<not> isDbConnected v \<and> (fst g = ListCollections \<or> g = g0))
          \<or> (snd g = Rejected e \<and> fst g \<noteq> ListCollections \<and> (\<forall>d. fst g \<noteq> Sleep d))))"

definition entry_threw :: "request \<times> response \<Rightarrow> error \<Rightarrow> world \<Rightarrow> world \<Rightarrow> bool" where
  "entry_threw g e u v =
     (same_manager u v
      \<and> ((e = connectionError \<and> \<not> isDbConnected v
             \<and> (fst g = ListCollections \<or> (\<exists>d. fst g = Sleep d)))
          \<or> (snd g = Rejected e \<and> fst g \<noteq> ListCollections \<and> (\<forall>d. fst g \<noteq> Sleep d))))"

definition snapshot_wait :: "(string \<times> obj) list \<Rightarrow> request \<Rightarrow> world \<Rightarrow> world \<Rightarrow> bool" where
  "snapshot_wait S r u v = (same_manager u v \<and> from_snapshot S r)"

text \<open>
  How a stretch of a pass over \<open>S\<close> ends when the pass ends in it: the manager is as
  the stretch found it, or the re-queue branch has run for an entry of \<open>S\<close>, on
  ``Database connection is not available''.
\<close>

definition pass_ends ::
  "(string \<times> obj) list \<Rightarrow> request \<times> response \<Rightarrow> unit \<Rightarrow> world \<Rightarrow> world \<Rightarrow> bool" where
  "pass_ends S g a u v =
     (same_manager u v
      \<or> (\<exists>userId \<in> fst ` set S.
            same_manager (requeued userId S u) v \<and> unavailable (fst g) (snd g) v))"

definition pass_rest :: "(string \<times> obj) list \<Rightarrow> unit task \<Rightarrow> bool" where
  "pass_rest S t =
     (case t of
        Await r k \<Rightarrow> from_snapshot S r
          \<and> (\<forall>x w. wpx (k x) (pass_ends S) (\<lambda>g e u v. False) (snapshot_wait S) (r, x) w w)
      | Return a \<Rightarrow> True
      | _ \<Rightarrow> False)"

text \<open>
  Two worlds that differ at most in the pending map, and trees that neither read the
  pending map nor let it change anything else they write.
\<close>

definition off_pending :: "world \<Rightarrow> world \<Rightarrow> bool" where
  "off_pending w w' = (w'\<lparr>pendingUpdates := pendingUpdates w\<rparr> = w)"

primrec blind :: "'a task \<Rightarrow> bool" where
  "blind (Return a) = True"
| "blind (Throw e) = True"
| "blind (Read h) = (\<forall>w. blind (h w) \<and> (\<forall>P. h (w\<lparr>pendingUpdates := P\<rparr>) = h w))"
| "blind (Write u t) = ((\<forall>w P. off_pending (u w) (u (w\<lparr>pendingUpdates := P\<rparr>))) \<and> blind t)"
| "blind (Await r k) = (\<forall>x. blind (k x))"

text \<open>
  The manager between passes (\<open>idle_ok\<close>): no timer and no handle, or one timer,
  its handle remembered, and something pending. An event loop in \<open>single_flight\<close>:
  no pass and an idle manager, or one suspended pass, no timer, and a pass that keeps
  it so until it ends.
\<close>

definition no_timer :: "world \<Rightarrow> bool" where
  "no_timer w = (batchTimeout w = None \<and> timers w = [])"

definition idle_ok :: "world \<Rightarrow> bool" where
  "idle_ok w =
     (no_timer w
      \<or> (\<exists>h due. batchTimeout w = Some h \<and> timers w = [(h, due)] \<and> pendingUpdates w \<noteq> []))"

definition single_flight :: "config \<Rightarrow> bool" where
  "single_flight c =
     ((suspended c = [] \<and> idle_ok (shared c))
      \<or> (\<exists>since r k. suspended c = [(since, Await r k)] \<and> no_timer (shared c)
           \<and> (\<forall>x w. no_timer w \<longrightarrow>
                 wpr (k x) (\<lambda>u w0 w. idle_ok w) (\<lambda>e u v. False) (\<lambda>u v. no_timer v) no_timer w w)))"

text \<open>
  Runs of the event loop in which \<^verbatim>\<open>queueUpdate\<close> is only called while no pass
  is suspended.
\<close>

definition calm :: "event \<Rightarrow> config \<Rightarrow> bool" where
  "calm ev c = (case ev of QueueUpdate userId patch \<Rightarrow> suspended c = [] | _ \<Rightarrow> True)"

fun run_calm :: "event list \<Rightarrow> config \<Rightarrow> config option" where
  "run_calm [] c = Some c"
| "run_calm (ev # evs) c =
     (if calm ev c then (case step ev c of None \<Rightarrow> None | Some c' \<Rightarrow> run_calm evs c') else None)"

section \<open>Properties\<close>

subsection \<open>Sequencing and handlers under \<open>exec\<close>\<close>

lemma exec_bind:
  "exec env (bind m f) w =
     (case exec env m w of (Inl e, w') \<Rightarrow> (Inl e, w') | (Inr a, w') \<Rightarrow> exec env (f a) w')"
  by (induction m arbitrary: w) auto

lemma exec_tcatch:
  "exec env (tcatch m h) w =
     (case exec env m w of (Inl e, w') \<Rightarrow> exec env (h e) w' | (Inr a, w') \<Rightarrow> (Inr a, w'))"
  by (induction m arbitrary: w) auto

lemma settle_fst:
  "fst (settle env r w) =
     (case r of Sleep d \<Rightarrow> Resolved [] | _ \<Rightarrow> outcome (env (length (issued w))))"
  by (simp add: settle_def Let_def)

lemma settle_snd:
  "snd (settle env r w) =
     w\<lparr>clock := clock w + int (elapsed (env (length (issued w))))
               + (case r of Sleep d \<Rightarrow> int d | _ \<Rightarrow> 0),
       issued := issued w @ [r]\<rparr>"
  by (simp add: settle_def Let_def)

lemma check_total: "\<exists>b w'. exec env checkDatabaseConnection w = (Inr b, w')"
  by (auto simp add: checkDatabaseConnection_def settle_fst split: response.splits)

lemma exec_check:
  "exec env checkDatabaseConnection w =
    (if connectionCheckInProgress w then (Inr (isDbConnected w), w)
     else if clock w - lastConnectionCheck w < CONNECTION_CHECK_INTERVAL
       then (Inr (isDbConnected w), w)
     else (case outcome (env (length (issued w))) of
        Resolved v \<Rightarrow> (Inr True, w\<lparr>connectionCheckInProgress := False,
            clock := clock w + int (elapsed (env (length (issued w)))),
            issued := issued w @ [ListCollections], isDbConnected := True,
            lastConnectionCheck := clock w + int (elapsed (env (length (issued w))))\<rparr>)
      | Rejected e \<Rightarrow> (Inr False, w\<lparr>connectionCheckInProgress := False,
            clock := clock w + int (elapsed (env (length (issued w)))),
            issued := issued w @ [ListCollections], isDbConnected := False,
            logs := logs w @ [CheckFailed (message e)]\<rparr>)))"
  by (simp add: checkDatabaseConnection_def settle_fst settle_snd split: response.splits)

lemma exec_remote:
  "exec env (remote r) w =
     (case fst (settle env r w) of
        Resolved v \<Rightarrow> (Inr v, snd (settle env r w))
      | Rejected e \<Rightarrow> (Inl e, snd (settle env r w)))"
  by (simp add: remote_def split: response.splits)

lemma exec_sleep:
  "exec env (bind (sleep d) f) w = exec env (f ()) (snd (settle env (Sleep d) w))"
  by (simp add: sleep_def)

lemma retry_step:
  "attempt \<le> 3 \<Longrightarrow> exec env (withRetry_from attempt delay lastError operation context) w =
     (case exec env operation w of
        (Inr v, w1) \<Rightarrow> (Inr v, w1)
      | (Inl e, w1) \<Rightarrow>
          if \<not> retryable e then (Inl e, w1)
          else if attempt < 3 then
            exec env (withRetry_from (attempt + 1) (delay * 2) (Some e) operation context)
              (backoff env context attempt delay e w1)
          else exec env (withRetry_from (attempt + 1) delay (Some e) operation context) w1)"
  by (subst withRetry_from.simps)
     (auto simp add: exec_tcatch exec_sleep backoff_def retryable_def split: prod.splits sum.splits)

lemma retry_done:
  "3 < attempt \<Longrightarrow> exec env (withRetry_from attempt delay (Some e) operation context) w =
     (Inl e, w\<lparr>logs := logs w @ [RetryExhausted context]\<rparr>)"
  by (subst withRetry_from.simps) simp

lemma backoff_issued:
  "issued (backoff env context attempt delay e w) = issued w @ [Sleep delay]"
  by (simp add: backoff_def settle_snd)

lemma backoff_clock: "clock w + int delay \<le> clock (backoff env context attempt delay e w)"
  by (simp add: backoff_def settle_snd)

lemmas scenario_simps = exec_remote settle_fst settle_snd backoff_def initial_def

subsection \<open>C6: time-to-live of the document cache\<close>

text \<open>
  C6. After \<open>set(id, document)\<close> at time \<open>t\<close>, a \<open>get(id)\<close> at time \<open>t'\<close> returns the
  document and leaves the cache as it is when \<open>t' - t \<le> 60000\<close>, and returns
  \<^verbatim>\<open>null\<close> and deletes the entry when \<open>t' - t > 60000\<close>.
\<close>

theorem DocumentCache_ttl:
  "(t' - t \<le> 60000 \<longrightarrow>
      DocumentCache_get userId t' (DocumentCache_set userId document t c)
        = (Some document, DocumentCache_set userId document t c))
   \<and> (t' - t > 60000 \<longrightarrow>
      DocumentCache_get userId t' (DocumentCache_set userId document t c)
        = (None, c(userId := None)))"
  by (simp add: DocumentCache_get_def DocumentCache_set_def)

theorem DocumentCache_ttl_witness:
  "((59000::int) - 0 \<le> 60000 \<and>
      DocumentCache_get ''u1'' 59000
          (DocumentCache_set ''u1'' [''guild'' \<mapsto> JStr ''g1''] 0 Map.empty)
        = (Some [''guild'' \<mapsto> JStr ''g1''],
           DocumentCache_set ''u1'' [''guild'' \<mapsto> JStr ''g1''] 0 Map.empty))
   \<and> ((61000::int) - 0 > 60000 \<and>
      DocumentCache_get ''u1'' 61000
          (DocumentCache_set ''u1'' [''guild'' \<mapsto> JStr ''g1''] 0 Map.empty)
        = (None, Map.empty(''u1'' := None)))"
  using DocumentCache_ttl [of 59000 0 "''u1''" "[''guild'' \<mapsto> JStr ''g1'']" Map.empty]
    DocumentCache_ttl [of 61000 0 "''u1''" "[''guild'' \<mapsto> JStr ''g1'']" Map.empty]
  by simp

subsection \<open>C9: the connection gate\<close>

text \<open>
  C9. \<^verbatim>\<open>withDatabaseCheck(databases, operation)\<close> throws the error ``Database
  connection is not available'' whenever \<^verbatim>\<open>checkDatabaseConnection\<close> returns false,
  and then the world is the one the check left behind: nothing of \<open>operation\<close> has
  run. When the check returns true the call is \<open>operation\<close> run after the check,
  result and effects unchanged. The check itself never throws.
\<close>

theorem withDatabaseCheck_gate:
  "(fst (exec env checkDatabaseConnection w) = Inr False \<longrightarrow>
      exec env (withDatabaseCheck operation) w
        = (Inl connectionError, snd (exec env checkDatabaseConnection w)))
   \<and> (fst (exec env checkDatabaseConnection w) = Inr True \<longrightarrow>
      exec env (withDatabaseCheck operation) w
        = exec env operation (snd (exec env checkDatabaseConnection w)))
   \<and> (\<exists>b. fst (exec env checkDatabaseConnection w) = Inr b)"
  using check_total [of env w]
  by (auto simp add: withDatabaseCheck_def exec_bind split: prod.splits sum.splits)

theorem withDatabaseCheck_gate_witness:
  "fst (exec unreachable_store checkDatabaseConnection (initial 1000000)) = Inr False
   \<and> exec unreachable_store (withDatabaseCheck sample_update) (initial 1000000)
       = (Inl connectionError, snd (exec unreachable_store checkDatabaseConnection (initial 1000000)))
   \<and> issued (snd (exec unreachable_store (withDatabaseCheck sample_update) (initial 1000000)))
       = [ListCollections]
   \<and> fst (exec reachable_store checkDatabaseConnection (initial 1000000)) = Inr True
   \<and> exec reachable_store (withDatabaseCheck sample_update) (initial 1000000)
       = exec reachable_store sample_update
           (snd (exec reachable_store checkDatabaseConnection (initial 1000000)))"
proof -
  have f: "fst (exec unreachable_store checkDatabaseConnection (initial 1000000)) = Inr False"
    by (simp add: exec_check initial_def unreachable_store_def)
  have t: "fst (exec reachable_store checkDatabaseConnection (initial 1000000)) = Inr True"
    by (simp add: exec_check initial_def reachable_store_def)
  from f withDatabaseCheck_gate [of unreachable_store "initial 1000000" sample_update]
  have 1: "exec unreachable_store (withDatabaseCheck sample_update) (initial 1000000)
       = (Inl connectionError, snd (exec unreachable_store checkDatabaseConnection (initial 1000000)))"
    by blast
  from t withDatabaseCheck_gate [of reachable_store "initial 1000000" sample_update]
  have 2: "exec reachable_store (withDatabaseCheck sample_update) (initial 1000000)
       = exec reachable_store sample_update
           (snd (exec reachable_store checkDatabaseConnection (initial 1000000)))"
    by blast
  have 3: "issued (snd (exec unreachable_store checkDatabaseConnection (initial 1000000)))
       = [ListCollections]"
    by (simp add: exec_check initial_def unreachable_store_def)
  from f t 1 2 3 show ?thesis by simp
qed

subsection \<open>C7: success on the third attempt\<close>

text \<open>
  C7. If \<open>operation\<close> fails on attempt 1 with an error whose code is neither 400 nor
  404, fails again so on attempt 2, which starts once the sleep of 1000ms after
  attempt 1 is over, and succeeds with \<open>v\<close> on attempt 3, which starts once the sleep
  of 2000ms after attempt 2 is over, then \<^verbatim>\<open>withRetry\<close> returns \<open>v\<close> in the world
  attempt 3 left behind. The two waits are requests \<open>Sleep 1000\<close> and \<open>Sleep 2000\<close>
  and take at least that long.
\<close>

theorem withRetry_third_attempt:
  assumes "exec env operation w0 = (Inl e1, w1)"
    and "code e1 \<noteq> Some 400 \<and> code e1 \<noteq> Some 404"
    and "exec env operation (backoff env context 1 1000 e1 w1) = (Inl e2, w2)"
    and "code e2 \<noteq> Some 400 \<and> code e2 \<noteq> Some 404"
    and "exec env operation (backoff env context 2 2000 e2 w2) = (Inr v, w3)"
  shows "exec env (withRetry operation context) w0 = (Inr v, w3)
    \<and> issued (backoff env context 1 1000 e1 w1) = issued w1 @ [Sleep 1000]
    \<and> clock w1 + 1000 \<le> clock (backoff env context 1 1000 e1 w1)
    \<and> issued (backoff env context 2 2000 e2 w2) = issued w2 @ [Sleep 2000]
    \<and> clock w2 + 2000 \<le> clock (backoff env context 2 2000 e2 w2)"
  using assms backoff_clock [of w1 1000 env "context" 1 e1]
    backoff_clock [of w2 2000 env "context" 2 e2]
  by (simp add: withRetry_def retry_step retryable_def backoff_issued numeral_2_eq_2)

theorem withRetry_third_attempt_witness:
  "fst (exec flaky_store sample_update (initial 0)) = Inl (Error ''fetch failed'' None)
   \<and> fst (exec flaky_store sample_update
        (backoff flaky_store ''ctx'' 1 1000 (Error ''fetch failed'' None)
           (snd (exec flaky_store sample_update (initial 0)))))
        = Inl (Error ''fetch failed'' None)
   \<and> fst (exec flaky_store (withRetry sample_update ''ctx'') (initial 0)) = Inr []
   \<and> issued (snd (exec flaky_store (withRetry sample_update ''ctx'') (initial 0)))
        = [UpdateDocument (Some (JStr ''doc1'')) [''guild'' \<mapsto> JStr ''g2''], Sleep 1000,
           UpdateDocument (Some (JStr ''doc1'')) [''guild'' \<mapsto> JStr ''g2''], Sleep 2000,
           UpdateDocument (Some (JStr ''doc1'')) [''guild'' \<mapsto> JStr ''g2'']]
   \<and> clock (snd (exec flaky_store (withRetry sample_update ''ctx'') (initial 0))) = 3050"
proof -
  let ?e = "Error ''fetch failed'' None"
  let ?w1 = "snd (exec flaky_store sample_update (initial 0))"
  let ?w2 = "snd (exec flaky_store sample_update (backoff flaky_store ''ctx'' 1 1000 ?e ?w1))"
  let ?w3 = "snd (exec flaky_store sample_update (backoff flaky_store ''ctx'' 2 2000 ?e ?w2))"
  have a1: "exec flaky_store sample_update (initial 0) = (Inl ?e, ?w1)"
    by (simp add: scenario_simps flaky_store_def sample_update_def)
  have a2: "exec flaky_store sample_update (backoff flaky_store ''ctx'' 1 1000 ?e ?w1) = (Inl ?e, ?w2)"
    by (simp add: scenario_simps flaky_store_def sample_update_def)
  have a3: "exec flaky_store sample_update (backoff flaky_store ''ctx'' 2 2000 ?e ?w2) = (Inr [], ?w3)"
    by (simp add: scenario_simps flaky_store_def sample_update_def)
  have r: "code ?e \<noteq> Some 400 \<and> code ?e \<noteq> Some 404" by simp
  have "exec flaky_store (withRetry sample_update ''ctx'') (initial 0) = (Inr [], ?w3)"
    using withRetry_third_attempt [OF a1 r a2 r a3] by blast
  then show ?thesis
    by (simp add: scenario_simps flaky_store_def sample_update_def)
qed

subsection \<open>C8: errors that are not retried, and exhausted retries\<close>

text \<open>
  C8. At whichever attempt \<open>operation\<close> fails with an error of code 400 or 404,
  \<^verbatim>\<open>withRetry\<close> throws that error in the world the attempt left behind: no further
  attempt, no wait. When all three attempts fail with errors of other codes, the
  error of the third attempt is thrown (after the ``all retry attempts failed''
  record). In every case what \<^verbatim>\<open>withRetry\<close> returns or throws is what one run of
  \<open>operation\<close> returned or threw.
\<close>

theorem withRetry_failures:
  "(attempt \<le> 3 \<and> exec env operation w = (Inl e, w1) \<and> (code e = Some 400 \<or> code e = Some 404)
      \<longrightarrow> exec env (withRetry_from attempt delay lastError operation context) w = (Inl e, w1))
   \<and> (exec env operation w = (Inl e, w1) \<and> (code e = Some 400 \<or> code e = Some 404)
      \<longrightarrow> exec env (withRetry operation context) w = (Inl e, w1))
   \<and> (exec env operation w0 = (Inl e1, w1) \<and> code e1 \<noteq> Some 400 \<and> code e1 \<noteq> Some 404
      \<and> exec env operation (backoff env context 1 1000 e1 w1) = (Inl e2, w2)
      \<and> code e2 \<noteq> Some 400 \<and> code e2 \<noteq> Some 404
      \<and> exec env operation (backoff env context 2 2000 e2 w2) = (Inl e3, w3)
      \<and> code e3 \<noteq> Some 400 \<and> code e3 \<noteq> Some 404
      \<longrightarrow> exec env (withRetry operation context) w0
            = (Inl e3, w3\<lparr>logs := logs w3 @ [RetryExhausted context]\<rparr>))
   \<and> (\<exists>w'. fst (exec env (withRetry operation context) w0) = fst (exec env operation w'))"
proof (intro conjI impI)
  assume "attempt \<le> 3 \<and> exec env operation w = (Inl e, w1) \<and> (code e = Some 400 \<or> code e = Some 404)"
  then show "exec env (withRetry_from attempt delay lastError operation context) w = (Inl e, w1)"
    by (auto simp add: retry_step retryable_def)
next
  assume "exec env operation w = (Inl e, w1) \<and> (code e = Some 400 \<or> code e = Some 404)"
  then show "exec env (withRetry operation context) w = (Inl e, w1)"
    by (auto simp add: withRetry_def retry_step retryable_def)
next
  assume "exec env operation w0 = (Inl e1, w1) \<and> code e1 \<noteq> Some 400 \<and> code e1 \<noteq> Some 404
      \<and> exec env operation (backoff env context 1 1000 e1 w1) = (Inl e2, w2)
      \<and> code e2 \<noteq> Some 400 \<and> code e2 \<noteq> Some 404
      \<and> exec env operation (backoff env context 2 2000 e2 w2) = (Inl e3, w3)
      \<and> code e3 \<noteq> Some 400 \<and> code e3 \<noteq> Some 404"
  then show "exec env (withRetry operation context) w0
            = (Inl e3, w3\<lparr>logs := logs w3 @ [RetryExhausted context]\<rparr>)"
    by (simp add: withRetry_def retry_step retry_done retryable_def numeral_2_eq_2 numeral_3_eq_3)
next
  show "\<exists>w'. fst (exec env (withRetry operation context) w0) = fst (exec env operation w')"
  proof (cases "exec env operation w0")
    case (Pair r1 w1)
    show ?thesis
    proof (cases r1)
      case (Inr v)
      with Pair have "fst (exec env (withRetry operation context) w0) = fst (exec env operation w0)"
        by (simp add: withRetry_def retry_step)
      then show ?thesis ..
    next
      case (Inl e1)
      show ?thesis
      proof (cases "retryable e1")
        case False
        with Pair Inl
        have "fst (exec env (withRetry operation context) w0) = fst (exec env operation w0)"
          by (simp add: withRetry_def retry_step)
        then show ?thesis ..
      next
        case r1: True
        obtain r2 w2 where p2: "exec env operation (backoff env context 1 1000 e1 w1) = (r2, w2)"
          by (cases "exec env operation (backoff env context 1 1000 e1 w1)")
        show ?thesis
        proof (cases r2)
          case (Inr v)
          with Pair Inl r1 p2 have "fst (exec env (withRetry operation context) w0)
              = fst (exec env operation (backoff env context 1 1000 e1 w1))"
            by (simp add: withRetry_def retry_step numeral_2_eq_2)
          then show ?thesis ..
        next
          case i2: (Inl e2)
          show ?thesis
          proof (cases "retryable e2")
            case False
            with Pair Inl r1 p2 i2 have "fst (exec env (withRetry operation context) w0)
                = fst (exec env operation (backoff env context 1 1000 e1 w1))"
              by (simp add: withRetry_def retry_step numeral_2_eq_2)
            then show ?thesis ..
          next
            case r2: True
            obtain r3 w3
              where p3: "exec env operation (backoff env context 2 2000 e2 w2) = (r3, w3)"
              by (cases "exec env operation (backoff env context 2 2000 e2 w2)")
            from Pair Inl r1 p2 i2 r2 p3
            have "fst (exec env (withRetry operation context) w0)
                = fst (exec env operation (backoff env context 2 2000 e2 w2))"
              by (cases r3)
                 (simp_all add: withRetry_def retry_step retry_done numeral_2_eq_2 numeral_3_eq_3)
            then show ?thesis ..
          qed
        qed
      qed
    qed
  qed
qed

theorem withRetry_failures_witness:
  "exec invalid_store sample_update (initial 0)
      = (Inl (Error ''Invalid document structure'' (Some 400)),
         snd (exec invalid_store sample_update (initial 0)))
   \<and> exec invalid_store (withRetry_from 2 2000 None sample_update ''ctx'') (initial 0)
      = (Inl (Error ''Invalid document structure'' (Some 400)),
         snd (exec invalid_store sample_update (initial 0)))
   \<and> exec invalid_store (withRetry sample_update ''ctx'') (initial 0)
      = (Inl (Error ''Invalid document structure'' (Some 400)),
         snd (exec invalid_store sample_update (initial 0)))
   \<and> issued (snd (exec invalid_store (withRetry sample_update ''ctx'') (initial 0)))
      = [UpdateDocument (Some (JStr ''doc1'')) [''guild'' \<mapsto> JStr ''g2'']]
   \<and> fst (exec unreachable_store (withRetry sample_update ''ctx'') (initial 0))
      = Inl (Error ''fetch failed'' None)
   \<and> issued (snd (exec unreachable_store (withRetry sample_update ''ctx'') (initial 0)))
      = [UpdateDocument (Some (JStr ''doc1'')) [''guild'' \<mapsto> JStr ''g2''], Sleep 1000,
         UpdateDocument (Some (JStr ''doc1'')) [''guild'' \<mapsto> JStr ''g2''], Sleep 2000,
         UpdateDocument (Some (JStr ''doc1'')) [''guild'' \<mapsto> JStr ''g2'']]"
proof -
  let ?i = "Error ''Invalid document structure'' (Some 400)"
  let ?v1 = "snd (exec invalid_store sample_update (initial 0))"
  have i1: "exec invalid_store sample_update (initial 0) = (Inl ?i, ?v1)"
    by (simp add: scenario_simps invalid_store_def sample_update_def)
  have c: "code ?i = Some 400 \<or> code ?i = Some 404" by simp
  note inv = withRetry_failures [where attempt = 2 and env = invalid_store
      and operation = sample_update and w = "initial 0" and e = ?i and ?w1.0 = ?v1
      and delay = 2000 and lastError = None]
  from inv i1 c
  have 1: "exec invalid_store (withRetry_from 2 2000 None sample_update ''ctx'') (initial 0) = (Inl ?i, ?v1)"
    by simp
  from inv i1 c
  have 2: "exec invalid_store (withRetry sample_update ''ctx'') (initial 0) = (Inl ?i, ?v1)"
    by simp
  let ?e = "Error ''fetch failed'' None"
  let ?w1 = "snd (exec unreachable_store sample_update (initial 0))"
  let ?w2 = "snd (exec unreachable_store sample_update (backoff unreachable_store ''ctx'' 1 1000 ?e ?w1))"
  let ?w3 = "snd (exec unreachable_store sample_update (backoff unreachable_store ''ctx'' 2 2000 ?e ?w2))"
  have a1: "exec unreachable_store sample_update (initial 0) = (Inl ?e, ?w1)"
    by (simp add: scenario_simps unreachable_store_def sample_update_def)
  have a2: "exec unreachable_store sample_update (backoff unreachable_store ''ctx'' 1 1000 ?e ?w1)
      = (Inl ?e, ?w2)"
    by (simp add: scenario_simps unreachable_store_def sample_update_def)
  have a3: "exec unreachable_store sample_update (backoff unreachable_store ''ctx'' 2 2000 ?e ?w2)
      = (Inl ?e, ?w3)"
    by (simp add: scenario_simps unreachable_store_def sample_update_def)
  from a1 a2 a3
    withRetry_failures [where env = unreachable_store and operation = sample_update
      and ?w0.0 = "initial 0" and ?e1.0 = ?e and ?w1.0 = ?w1 and ?e2.0 = ?e and ?w2.0 = ?w2
      and ?e3.0 = ?e and ?w3.0 = ?w3]
  have 3: "exec unreachable_store (withRetry sample_update ''ctx'') (initial 0)
      = (Inl ?e, ?w3\<lparr>logs := logs ?w3 @ [RetryExhausted ''ctx'']\<rparr>)"
    by simp
  show ?thesis
    unfolding 1 2 3 by (simp add: scenario_simps invalid_store_def unreachable_store_def sample_update_def)
qed

subsection \<open>C10: a shut gate is retried like any other failure\<close>

text \<open>
  C10, as stated, fails. The store rejects every request, but the module has checked
  its connection successfully at this very moment. On all three attempts the gate
  answers \<^verbatim>\<open>true\<close> from its 5000ms window, so it is the lookup itself that fails
  three times with the network error, with the waits of 1000ms and 2000ms. No
  ``Database connection is not available'' error is thrown: the entry is logged as
  failed, nothing is re-queued and no timer is armed.
\<close>

theorem open_gate_counterexample:
  "(\<forall>n. \<exists>e. outcome (unreachable_store n) = Rejected e)
   \<and> fst (exec unreachable_store processBatch gate_open) = Inr ()
   \<and> issued (snd (exec unreachable_store processBatch gate_open))
       = [ListDocuments ''u1'', Sleep 1000, ListDocuments ''u1'', Sleep 2000, ListDocuments ''u1'']
   \<and> logs (snd (exec unreachable_store processBatch gate_open))
       = [RetryWarn ''Fetch document for batch update u1'' 1 1000 ''fetch failed'',
          RetryWarn ''Fetch document for batch update u1'' 2 2000 ''fetch failed'',
          RetryExhausted ''Fetch document for batch update u1'',
          BatchFailed ''u1'' ''fetch failed'']
   \<and> pendingUpdates (snd (exec unreachable_store processBatch gate_open)) = []
   \<and> timers (snd (exec unreachable_store processBatch gate_open)) = []
   \<and> batchTimeout (snd (exec unreachable_store processBatch gate_open)) = None"
  by (simp add: processBatch_def processEntry_def updateDocument_def fetchDocument_def
        withDatabaseCheck_def withRetry_def retry_step retry_done exec_bind exec_tcatch
        exec_check exec_remote settle_fst settle_snd backoff_def retryable_def
        DocumentCache_get_def DocumentCache_set_def setTimeout_processBatch_def
        js_has_def connectionError_def one_pending_def initial_def unreachable_store_def
        numeral_2_eq_2 numeral_3_eq_3 gate_open_def)


lemma check_shut:
  assumes "gate_shut env w"
  shows "\<exists>w' xs ls. exec env checkDatabaseConnection w = (Inr False, w') \<and> gate_shut env w'
           \<and> trace w w' xs ls \<and> filter (\<lambda>r. r \<noteq> ListCollections) xs = []
           \<and> filter (\<lambda>l. \<not> is_probe_log l) ls = []"
proof (cases "clock w - lastConnectionCheck w < CONNECTION_CHECK_INTERVAL")
  case True
  with assms have "exec env checkDatabaseConnection w = (Inr False, w)"
    by (auto simp add: gate_shut_def exec_check)
  moreover have "trace w w [] []" by (simp add: trace_def)
  ultimately show ?thesis using assms by fastforce
next
  case False
  from assms obtain e where e: "outcome (env (length (issued w))) = Rejected e"
    by (auto simp add: gate_shut_def)
  let ?w' = "w\<lparr>connectionCheckInProgress := False,
      clock := clock w + int (elapsed (env (length (issued w)))),
      issued := issued w @ [ListCollections], isDbConnected := False,
      logs := logs w @ [CheckFailed (message e)]\<rparr>"
  from assms False e have "exec env checkDatabaseConnection w = (Inr False, ?w')"
    by (auto simp add: gate_shut_def exec_check)
  moreover have "trace w ?w' [ListCollections] [CheckFailed (message e)]"
    by (simp add: trace_def)
  moreover from assms have "gate_shut env ?w'" by (simp add: gate_shut_def)
  moreover have "filter (\<lambda>l. \<not> is_probe_log l) [CheckFailed (message e)] = []"
    by (simp add: is_probe_log_def)
  ultimately show ?thesis by fastforce
qed

lemma gate_shut_backoff:
  "gate_shut env w \<Longrightarrow> gate_shut env (backoff env context attempt delay e w)"
  by (auto simp add: gate_shut_def backoff_def settle_snd)

lemma trace_backoff:
  "trace w (backoff env context attempt delay e w) [Sleep delay]
     [RetryWarn context attempt delay (message e)]"
  by (simp add: trace_def backoff_def settle_snd)

lemma trace_trans:
  "trace w w1 xs ls \<Longrightarrow> trace w1 w2 ys ms \<Longrightarrow> trace w w2 (xs @ ys) (ls @ ms)"
  by (simp add: trace_def)

lemma trace_log: "trace w (w\<lparr>logs := logs w @ [l]\<rparr>) [] [l]"
  by (simp add: trace_def)

lemma gated_shut:
  assumes "gate_shut env w"
  shows "\<exists>w' xs ls. exec env (withDatabaseCheck operation) w = (Inl connectionError, w')
           \<and> gate_shut env w' \<and> trace w w' xs ls
           \<and> filter (\<lambda>r. r \<noteq> ListCollections) xs = []
           \<and> filter (\<lambda>l. \<not> is_probe_log l) ls = []"
proof -
  from check_shut [OF assms] obtain w' xs ls where
    "exec env checkDatabaseConnection w = (Inr False, w')" "gate_shut env w'" "trace w w' xs ls"
    "filter (\<lambda>r. r \<noteq> ListCollections) xs = []" "filter (\<lambda>l. \<not> is_probe_log l) ls = []"
    by blast
  moreover from this(1)
  have "exec env (withDatabaseCheck operation) w = (Inl connectionError, w')"
    by (simp add: withDatabaseCheck_def exec_bind)
  ultimately show ?thesis by blast
qed

lemma retried_shut:
  assumes shut: "gate_shut env w"
    and op: "\<And>w. gate_shut env w \<Longrightarrow>
       \<exists>w' xs ls. exec env operation w = (Inl connectionError, w')
           \<and> gate_shut env w' \<and> trace w w' xs ls
           \<and> filter (\<lambda>r. r \<noteq> ListCollections) xs = []
           \<and> filter (\<lambda>l. \<not> is_probe_log l) ls = []"
  shows "\<exists>w' xs ls. exec env (withRetry operation context) w = (Inl connectionError, w')
           \<and> gate_shut env w' \<and> trace w w' xs ls
           \<and> filter (\<lambda>r. r \<noteq> ListCollections) xs = [Sleep 1000, Sleep 2000]
           \<and> filter (\<lambda>l. \<not> is_probe_log l) ls
               = [RetryWarn context 1 1000 (message connectionError),
                  RetryWarn context 2 2000 (message connectionError),
                  RetryExhausted context]"
proof -
  have r: "retryable connectionError" by (simp add: retryable_def connectionError_def)
  from op [OF shut] obtain w1 xs1 ls1 where
    1: "exec env operation w = (Inl connectionError, w1)" "gate_shut env w1" "trace w w1 xs1 ls1"
      "filter (\<lambda>r. r \<noteq> ListCollections) xs1 = []" "filter (\<lambda>l. \<not> is_probe_log l) ls1 = []"
    by blast
  let ?b1 = "backoff env context 1 1000 connectionError w1"
  from op [OF gate_shut_backoff [OF 1(2)]] obtain w2 xs2 ls2 where
    2: "exec env operation ?b1 = (Inl connectionError, w2)" "gate_shut env w2" "trace ?b1 w2 xs2 ls2"
      "filter (\<lambda>r. r \<noteq> ListCollections) xs2 = []" "filter (\<lambda>l. \<not> is_probe_log l) ls2 = []"
    by blast
  let ?b2 = "backoff env context 2 2000 connectionError w2"
  from op [OF gate_shut_backoff [OF 2(2)]] obtain w3 xs3 ls3 where
    3: "exec env operation ?b2 = (Inl connectionError, w3)" "gate_shut env w3" "trace ?b2 w3 xs3 ls3"
      "filter (\<lambda>r. r \<noteq> ListCollections) xs3 = []" "filter (\<lambda>l. \<not> is_probe_log l) ls3 = []"
    by blast
  let ?w' = "w3\<lparr>logs := logs w3 @ [RetryExhausted context]\<rparr>"
  let ?xs = "((((xs1 @ [Sleep 1000]) @ xs2) @ [Sleep 2000]) @ xs3) @ []"
  let ?ls = "((((ls1 @ [RetryWarn context 1 1000 (message connectionError)]) @ ls2)
      @ [RetryWarn context 2 2000 (message connectionError)]) @ ls3) @ [RetryExhausted context]"
  from 1(1) 2(1) 3(1) r have "exec env (withRetry operation context) w = (Inl connectionError, ?w')"
    by (simp add: withRetry_def retry_step retry_done numeral_2_eq_2 numeral_3_eq_3)
  moreover from 3(2) have "gate_shut env ?w'" by (simp add: gate_shut_def)
  moreover have "trace w ?w' ?xs ?ls"
    by (intro trace_trans [OF _ trace_log] trace_trans [OF _ 3(3)] trace_trans [OF _ trace_backoff]
          trace_trans [OF _ 2(3)] 1(3))
  moreover have "filter (\<lambda>r. r \<noteq> ListCollections) ?xs = [Sleep 1000, Sleep 2000]"
    using 1(4) 2(4) 3(4) by simp
  moreover have "filter (\<lambda>l. \<not> is_probe_log l) ?ls
      = [RetryWarn context 1 1000 (message connectionError),
         RetryWarn context 2 2000 (message connectionError), RetryExhausted context]"
    using 1(5) 2(5) 3(5) by (simp add: is_probe_log_def)
  ultimately show ?thesis by blast
qed

lemma update_shut:
  assumes "gate_shut env w"
  shows "\<exists>w' xs ls context. exec env (updateDocument docId flds userId) w = (Inl connectionError, w')
           \<and> gate_shut env w' \<and> trace w w' xs ls
           \<and> filter (\<lambda>r. r \<noteq> ListCollections) xs = [Sleep 1000, Sleep 2000]
           \<and> filter (\<lambda>l. \<not> is_probe_log l) ls
               = [RetryWarn context 1 1000 (message connectionError),
                  RetryWarn context 2 2000 (message connectionError),
                  RetryExhausted context]"
proof -
  have "\<exists>w' xs ls. exec env (bind (withDatabaseCheck (remote (UpdateDocument docId flds)))
              (\<lambda>r. Return ())) w = (Inl connectionError, w')
           \<and> gate_shut env w' \<and> trace w w' xs ls
           \<and> filter (\<lambda>r. r \<noteq> ListCollections) xs = []
           \<and> filter (\<lambda>l. \<not> is_probe_log l) ls = []" if "gate_shut env w" for w
  proof -
    from gated_shut [OF that, of "remote (UpdateDocument docId flds)"] obtain w' xs ls where
      "exec env (withDatabaseCheck (remote (UpdateDocument docId flds))) w = (Inl connectionError, w')"
      "gate_shut env w'" "trace w w' xs ls"
      "filter (\<lambda>r. r \<noteq> ListCollections) xs = []" "filter (\<lambda>l. \<not> is_probe_log l) ls = []"
      by blast
    moreover from this(1)
    have "exec env (bind (withDatabaseCheck (remote (UpdateDocument docId flds)))
              (\<lambda>r. Return ())) w = (Inl connectionError, w')"
      by (simp add: exec_bind)
    ultimately show ?thesis by blast
  qed
  from retried_shut [OF assms this] show ?thesis
    unfolding updateDocument_def by blast
qed

lemma fetch_shut:
  assumes "gate_shut env w"
  shows "\<exists>w' xs ls context. exec env (fetchDocument userId) w = (Inl connectionError, w')
           \<and> gate_shut env w' \<and> trace w w' xs ls
           \<and> filter (\<lambda>r. r \<noteq> ListCollections) xs = [Sleep 1000, Sleep 2000]
           \<and> filter (\<lambda>l. \<not> is_probe_log l) ls
               = [RetryWarn context 1 1000 (message connectionError),
                  RetryWarn context 2 2000 (message connectionError),
                  RetryExhausted context]"
  using retried_shut [OF assms gated_shut] unfolding fetchDocument_def by blast

lemma entry_shut:
  assumes "gate_shut env w"
  shows "\<exists>w' xs ls context. exec env (processEntry userId flds) w = (Inl connectionError, w')
           \<and> trace (w\<lparr>cache := snd (DocumentCache_get userId (clock w) (cache w))\<rparr>) w' xs ls
           \<and> filter (\<lambda>r. r \<noteq> ListCollections) xs = [Sleep 1000, Sleep 2000]
           \<and> filter (\<lambda>l. \<not> is_probe_log l) ls
               = [RetryWarn context 1 1000 (message connectionError),
                  RetryWarn context 2 2000 (message connectionError),
                  RetryExhausted context]"
proof -
  let ?w0 = "w\<lparr>cache := snd (DocumentCache_get userId (clock w) (cache w))\<rparr>"
  from assms have s: "gate_shut env ?w0" by (simp add: gate_shut_def)
  show ?thesis
  proof (cases "fst (DocumentCache_get userId (clock w) (cache w))")
    case None
    from fetch_shut [OF s, of userId] obtain w' xs ls "context" where
      f: "exec env (fetchDocument userId) ?w0 = (Inl connectionError, w')" "trace ?w0 w' xs ls"
        "filter (\<lambda>r. r \<noteq> ListCollections) xs = [Sleep 1000, Sleep 2000]"
        "filter (\<lambda>l. \<not> is_probe_log l) ls
               = [RetryWarn context 1 1000 (message connectionError),
                  RetryWarn context 2 2000 (message connectionError),
                  RetryExhausted context]"
      by blast
    from f(1) None have "exec env (processEntry userId flds) w = (Inl connectionError, w')"
      by (simp add: processEntry_def exec_bind)
    with f show ?thesis by blast
  next
    case (Some cachedDoc)
    from update_shut [OF s, of "cachedDoc ''$id''" flds userId] obtain w' xs ls "context" where
      f: "exec env (updateDocument (cachedDoc ''$id'') flds userId) ?w0 = (Inl connectionError, w')"
        "trace ?w0 w' xs ls"
        "filter (\<lambda>r. r \<noteq> ListCollections) xs = [Sleep 1000, Sleep 2000]"
        "filter (\<lambda>l. \<not> is_probe_log l) ls
               = [RetryWarn context 1 1000 (message connectionError),
                  RetryWarn context 2 2000 (message connectionError),
                  RetryExhausted context]"
      by blast
    from f(1) Some have "exec env (processEntry userId flds) w = (Inl connectionError, w')"
      by (simp add: processEntry_def exec_bind)
    with f show ?thesis by blast
  qed
qed

lemma retry_thrown:
  assumes "exec env (withRetry operation context) w = (Inl e, w')" and "retryable e"
  shows "\<exists>e1 v1 e2 v2 v3. exec env operation w = (Inl e1, v1) \<and> retryable e1
           \<and> exec env operation (backoff env context 1 1000 e1 v1) = (Inl e2, v2) \<and> retryable e2
           \<and> exec env operation (backoff env context 2 2000 e2 v2) = (Inl e, v3)
           \<and> w' = v3\<lparr>logs := logs v3 @ [RetryExhausted context]\<rparr>"
proof -
  obtain r1 v1 where p1: "exec env operation w = (r1, v1)" by (cases "exec env operation w")
  obtain e1 where i1: "r1 = Inl e1" and t1: "retryable e1"
    using assms p1 by (cases r1) (auto simp add: withRetry_def retry_step split: if_splits)
  obtain r2 v2 where p2: "exec env operation (backoff env context 1 1000 e1 v1) = (r2, v2)"
    by (cases "exec env operation (backoff env context 1 1000 e1 v1)")
  obtain e2 where i2: "r2 = Inl e2" and t2: "retryable e2"
    using assms p1 i1 t1 p2
    by (cases r2) (auto simp add: withRetry_def retry_step numeral_2_eq_2 split: if_splits)
  obtain r3 v3 where p3: "exec env operation (backoff env context 2 2000 e2 v2) = (r3, v3)"
    by (cases "exec env operation (backoff env context 2 2000 e2 v2)")
  from assms p1 i1 t1 p2 i2 t2 p3
  have "r3 = Inl e \<and> w' = v3\<lparr>logs := logs v3 @ [RetryExhausted context]\<rparr>"
    by (cases r3)
       (auto simp add: withRetry_def retry_step retry_done numeral_2_eq_2 numeral_3_eq_3
          split: if_splits)
  with p1 i1 t1 p2 i2 t2 p3 show ?thesis by blast
qed


lemma retry_third:
  "exec env (withRetry operation context) w = (Inl e, w') \<Longrightarrow> retryable e
     \<Longrightarrow> third_attempt_threw env operation context e w'"
  unfolding third_attempt_threw_def using retry_thrown by blast

lemma entry_thrown:
  assumes "exec env (processEntry userId flds) w = (Inl e, w')" and "retryable e"
  shows "third_attempt_threw env (withDatabaseCheck (remote (ListDocuments userId)))
             (''Fetch document for batch update '' @ userId) e w'
         \<or> (\<exists>docId. third_attempt_threw env
               (bind (withDatabaseCheck (remote (UpdateDocument docId flds))) (\<lambda>r. Return ()))
               (''Batch update for user '' @ userId) e w')"
proof -
  let ?w0 = "w\<lparr>cache := snd (DocumentCache_get userId (clock w) (cache w))\<rparr>"
  have update: ?thesis if "exec env (updateDocument docId flds userId) v0 = (Inl e, w')" for docId v0
    using retry_third [OF that [unfolded updateDocument_def] assms(2)] by blast
  show ?thesis
  proof (cases "fst (DocumentCache_get userId (clock w) (cache w))")
    case (Some cachedDoc)
    with assms(1) have "exec env (updateDocument (cachedDoc ''$id'') flds userId) ?w0 = (Inl e, w')"
      by (auto simp add: processEntry_def exec_bind split: prod.splits sum.splits)
    then show ?thesis by (rule update)
  next
    case None
    obtain r1 w1 where f: "exec env (fetchDocument userId) ?w0 = (r1, w1)"
      by (cases "exec env (fetchDocument userId) ?w0")
    show ?thesis
    proof (cases r1)
      case (Inl e')
      with assms(1) None f have "exec env (fetchDocument userId) ?w0 = (Inl e, w')"
        by (simp add: processEntry_def exec_bind)
      from retry_third [OF this [unfolded fetchDocument_def] assms(2)] show ?thesis by blast
    next
      case (Inr documents)
      show ?thesis
      proof (cases documents)
        case Nil
        with assms(1) None f Inr show ?thesis by (simp add: processEntry_def exec_bind)
      next
        case (Cons d ds)
        with assms(1) None f Inr
        have "exec env (updateDocument (d ''$id'') flds userId) w1 = (Inl e, w')"
          by (auto simp add: processEntry_def exec_bind split: prod.splits sum.splits)
        then show ?thesis by (rule update)
      qed
    qed
  qed
qed

text \<open>
  C10, amended. The error the gate throws has no code, so \<^verbatim>\<open>withRetry\<close> retries
  it. An attempt of a gated call on which the connection check answers \<^verbatim>\<open>false\<close>
  is followed, when it is the first or the second, by the warning, the backoff wait
  and the next attempt with the delay doubled, and when it is the third, by the
  ``all retry attempts failed'' record and the throw of the gate's error. So whenever ``Database connection is not available'' leaves the
  \<^verbatim>\<open>try\<close> block of an entry of \<^verbatim>\<open>processBatch\<close>, whatever the store and the gate
  did before, it is the error of the third attempt of one of the entry's gated
  calls (the lookup, or an update with the entry's patch), made after the waits of
  1000ms and 2000ms, and the loop then takes the re-queue branch and ends. When the
  store is unreachable and, as the loop comes to the entry, no probe is in flight and
  the module knows it is disconnected or is due for a probe, this is what happens:
  apart from connection probes the loop awaits exactly the sleeps of 1000ms and
  2000ms, logs the two retries and the exhaustion, and only then re-queues from the
  snapshot and arms the 5000ms timer.
\<close>

theorem gate_failure_is_retried:
  "code connectionError = None
   \<and> (attempt \<le> 3 \<and> exec env checkDatabaseConnection w = (Inr False, v)
       \<and> (gated = withDatabaseCheck operation \<or> gated = bind (withDatabaseCheck guarded) f)
        \<longrightarrow> exec env (withRetry_from attempt delay lastError gated label) w
             = (if attempt < 3
                then exec env (withRetry_from (attempt + 1) (delay * 2) (Some connectionError)
                        gated label)
                      (backoff env label attempt delay connectionError v)
                else (Inl connectionError, v\<lparr>logs := logs v @ [RetryExhausted label]\<rparr>)))
   \<and> (exec env (processEntry userId flds) w = (Inl connectionError, w1)
        \<longrightarrow> (third_attempt_threw env (withDatabaseCheck (remote (ListDocuments userId)))
                 (''Fetch document for batch update '' @ userId) connectionError w1
              \<or> (\<exists>docId. third_attempt_threw env
                    (bind (withDatabaseCheck (remote (UpdateDocument docId flds))) (\<lambda>r. Return ()))
                    (''Batch update for user '' @ userId) connectionError w1))
          \<and> exec env (batchLoop updates ((userId, flds) # rest)) w
               = (Inr (), requeued userId updates w1))
   \<and> ((\<forall>n. \<exists>e. outcome (env n) = Rejected e) \<and> \<not> connectionCheckInProgress w
       \<and> (\<not> isDbConnected w \<or> 5000 \<le> clock w - lastConnectionCheck w)
        \<longrightarrow> (\<exists>w' xs ls label.
          exec env (batchLoop updates ((userId, flds) # rest)) w = (Inr (), w')
          \<and> issued w' = issued w @ xs
          \<and> filter (\<lambda>r. r \<noteq> ListCollections) xs = [Sleep 1000, Sleep 2000]
          \<and> logs w' = logs w @ ls
          \<and> filter (\<lambda>l. \<not> is_probe_log l) ls
               = [RetryWarn label 1 1000 (message connectionError),
                  RetryWarn label 2 2000 (message connectionError),
                  RetryExhausted label, Requeued]
          \<and> pendingUpdates w' = requeue userId updates (pendingUpdates w)
          \<and> timers w' = timers w @ [(nextHandle w, clock w' + 5000)]
          \<and> batchTimeout w' = Some (nextHandle w)))"
proof (intro conjI impI)
  show "code connectionError = None" by (simp add: connectionError_def)
next
  assume a: "attempt \<le> 3 \<and> exec env checkDatabaseConnection w = (Inr False, v)
       \<and> (gated = withDatabaseCheck operation \<or> gated = bind (withDatabaseCheck guarded) f)"
  then have "exec env gated w = (Inl connectionError, v)"
    by (auto simp add: withDatabaseCheck_def exec_bind)
  with a show "exec env (withRetry_from attempt delay lastError gated label) w
             = (if attempt < 3
                then exec env (withRetry_from (attempt + 1) (delay * 2) (Some connectionError)
                        gated label)
                      (backoff env label attempt delay connectionError v)
                else (Inl connectionError, v\<lparr>logs := logs v @ [RetryExhausted label]\<rparr>))"
    by (simp add: retry_step retry_done retryable_def connectionError_def)
next
  assume a: "exec env (processEntry userId flds) w = (Inl connectionError, w1)"
  have "retryable connectionError" by (simp add: retryable_def connectionError_def)
  from entry_thrown [OF a this]
  show "third_attempt_threw env (withDatabaseCheck (remote (ListDocuments userId)))
                 (''Fetch document for batch update '' @ userId) connectionError w1
              \<or> (\<exists>docId. third_attempt_threw env
                    (bind (withDatabaseCheck (remote (UpdateDocument docId flds))) (\<lambda>r. Return ()))
                    (''Batch update for user '' @ userId) connectionError w1)" .
  from a show "exec env (batchLoop updates ((userId, flds) # rest)) w
               = (Inr (), requeued userId updates w1)"
    by (simp add: exec_bind exec_tcatch connectionError_def requeued_def)
next
  assume "(\<forall>n. \<exists>e. outcome (env n) = Rejected e) \<and> \<not> connectionCheckInProgress w
       \<and> (\<not> isDbConnected w \<or> 5000 \<le> clock w - lastConnectionCheck w)"
  then have "gate_shut env w" by (simp add: gate_shut_def)
  from entry_shut [OF this, of userId flds] obtain w1 xs ls "context" where
    1: "exec env (processEntry userId flds) w = (Inl connectionError, w1)"
    and 2: "trace (w\<lparr>cache := snd (DocumentCache_get userId (clock w) (cache w))\<rparr>) w1 xs ls"
    and 3: "filter (\<lambda>r. r \<noteq> ListCollections) xs = [Sleep 1000, Sleep 2000]"
    and 4: "filter (\<lambda>l. \<not> is_probe_log l) ls
               = [RetryWarn context 1 1000 (message connectionError),
                  RetryWarn context 2 2000 (message connectionError),
                  RetryExhausted context]" by blast
  let ?w' = "setTimeout_processBatch 5000
     (w1\<lparr>pendingUpdates := requeue userId updates (pendingUpdates w1),
         logs := logs w1 @ [Requeued]\<rparr>)"
  from 1 have "exec env (batchLoop updates ((userId, flds) # rest)) w = (Inr (), ?w')"
    by (simp add: exec_bind exec_tcatch connectionError_def)
  moreover from 2 have "issued ?w' = issued w @ xs"
    "logs ?w' = logs w @ (ls @ [Requeued])"
    "pendingUpdates ?w' = requeue userId updates (pendingUpdates w)"
    "timers ?w' = timers w @ [(nextHandle w, clock ?w' + 5000)]"
    "batchTimeout ?w' = Some (nextHandle w)"
    by (simp_all add: trace_def setTimeout_processBatch_def)
  moreover from 4 have "filter (\<lambda>l. \<not> is_probe_log l) (ls @ [Requeued])
               = [RetryWarn context 1 1000 (message connectionError),
                  RetryWarn context 2 2000 (message connectionError),
                  RetryExhausted context, Requeued]"
    by (simp add: is_probe_log_def)
  ultimately show "\<exists>w' xs ls label.
          exec env (batchLoop updates ((userId, flds) # rest)) w = (Inr (), w')
          \<and> issued w' = issued w @ xs
          \<and> filter (\<lambda>r. r \<noteq> ListCollections) xs = [Sleep 1000, Sleep 2000]
          \<and> logs w' = logs w @ ls
          \<and> filter (\<lambda>l. \<not> is_probe_log l) ls
               = [RetryWarn label 1 1000 (message connectionError),
                  RetryWarn label 2 2000 (message connectionError),
                  RetryExhausted label, Requeued]
          \<and> pendingUpdates w' = requeue userId updates (pendingUpdates w)
          \<and> timers w' = timers w @ [(nextHandle w, clock w' + 5000)]
          \<and> batchTimeout w' = Some (nextHandle w)"
    using 3 by blast
qed


theorem gate_failure_is_retried_witness:
  "fst (exec unreachable_store checkDatabaseConnection one_pending) = Inr False
   \<and> exec unreachable_store
        (withRetry_from 1 1000 None (withDatabaseCheck (remote (ListDocuments ''u1'')))
           ''Fetch document for batch update u1'')
        one_pending
      = exec unreachable_store
          (withRetry_from 2 2000 (Some connectionError)
             (withDatabaseCheck (remote (ListDocuments ''u1'')))
             ''Fetch document for batch update u1'')
          (backoff unreachable_store ''Fetch document for batch update u1'' 1 1000 connectionError
             (snd (exec unreachable_store checkDatabaseConnection one_pending)))
   \<and> exec unreachable_store
        (withRetry_from 3 4000 (Some connectionError)
           (bind (withDatabaseCheck (remote (UpdateDocument (Some (JStr ''doc1''))
              [''guild'' \<mapsto> JStr ''g1'']))) (\<lambda>r. Return ()))
           ''Batch update for user u1'')
        one_pending
      = (Inl connectionError,
         (snd (exec unreachable_store checkDatabaseConnection one_pending))
           \<lparr>logs := logs (snd (exec unreachable_store checkDatabaseConnection one_pending))
              @ [RetryExhausted ''Batch update for user u1'']\<rparr>)
   \<and> isDbConnected gate_expiring
   \<and> clock gate_expiring - lastConnectionCheck gate_expiring = 4500
   \<and> fst (exec unreachable_store (processEntry ''u1'' [''guild'' \<mapsto> JStr ''g1'']) gate_expiring)
      = Inl connectionError
   \<and> third_attempt_threw unreachable_store (withDatabaseCheck (remote (ListDocuments ''u1'')))
        ''Fetch document for batch update u1'' connectionError
        (snd (exec unreachable_store (processEntry ''u1'' [''guild'' \<mapsto> JStr ''g1'']) gate_expiring))
   \<and> exec unreachable_store
        (batchLoop [(''u1'', [''guild'' \<mapsto> JStr ''g1''])]
           ((''u1'', [''guild'' \<mapsto> JStr ''g1'']) # [])) gate_expiring
      = (Inr (), requeued ''u1'' [(''u1'', [''guild'' \<mapsto> JStr ''g1''])]
           (snd (exec unreachable_store (processEntry ''u1'' [''guild'' \<mapsto> JStr ''g1''])
              gate_expiring)))
   \<and> issued (snd (exec unreachable_store processBatch gate_expiring))
       = [ListDocuments ''u1'', Sleep 1000, ListCollections, Sleep 2000, ListCollections]
   \<and> pendingUpdates (snd (exec unreachable_store processBatch gate_expiring))
       = [(''u1'', [''guild'' \<mapsto> JStr ''g1''])]
   \<and> timers (snd (exec unreachable_store processBatch gate_expiring)) = [(1, 1008150)]
   \<and> (\<forall>n. \<exists>e. outcome (unreachable_store n) = Rejected e)
   \<and> \<not> connectionCheckInProgress one_pending
   \<and> 5000 \<le> clock one_pending - lastConnectionCheck one_pending
   \<and> code connectionError = None
   \<and> (\<exists>w' xs ls label.
          exec unreachable_store
            (batchLoop [(''u1'', [''guild'' \<mapsto> JStr ''g1''])]
               ((''u1'', [''guild'' \<mapsto> JStr ''g1'']) # [])) one_pending = (Inr (), w')
          \<and> issued w' = issued one_pending @ xs
          \<and> filter (\<lambda>r. r \<noteq> ListCollections) xs = [Sleep 1000, Sleep 2000]
          \<and> logs w' = logs one_pending @ ls
          \<and> filter (\<lambda>l. \<not> is_probe_log l) ls
               = [RetryWarn label 1 1000 (message connectionError),
                  RetryWarn label 2 2000 (message connectionError),
                  RetryExhausted label, Requeued]
          \<and> pendingUpdates w'
               = requeue ''u1'' [(''u1'', [''guild'' \<mapsto> JStr ''g1''])] (pendingUpdates one_pending)
          \<and> timers w' = timers one_pending @ [(nextHandle one_pending, clock w' + 5000)]
          \<and> batchTimeout w' = Some (nextHandle one_pending))
   \<and> issued (snd (exec unreachable_store processBatch one_pending))
       = [ListCollections, Sleep 1000, ListCollections, Sleep 2000, ListCollections]
   \<and> pendingUpdates (snd (exec unreachable_store processBatch one_pending))
       = [(''u1'', [''guild'' \<mapsto> JStr ''g1''])]
   \<and> timers (snd (exec unreachable_store processBatch one_pending)) = [(1, 1008150)]"
proof -
  let ?S = "[(''u1'', [''guild'' \<mapsto> JStr ''g1''])]"
  let ?op = "withDatabaseCheck (remote (ListDocuments ''u1'')) :: (obj list) task"
  let ?v1 = "snd (exec unreachable_store checkDatabaseConnection one_pending)"
  let ?w1 = "snd (exec unreachable_store (processEntry ''u1'' [''guild'' \<mapsto> JStr ''g1'']) gate_expiring)"
  let ?upd = "bind (withDatabaseCheck (remote (UpdateDocument (Some (JStr ''doc1''))
              [''guild'' \<mapsto> JStr ''g1'']))) (\<lambda>r. Return ()) :: unit task"
  have a1: "fst (exec unreachable_store checkDatabaseConnection one_pending) = Inr False"
    by (simp add: exec_check one_pending_def initial_def unreachable_store_def)
  then have a: "exec unreachable_store checkDatabaseConnection one_pending = (Inr False, ?v1)"
    by (simp add: prod_eq_iff)
  have a0: "(1::nat) \<le> 3" "(3::nat) \<le> 3" by simp_all
  from gate_failure_is_retried [where attempt = 1 and env = unreachable_store
      and gated = ?op and operation = "remote (ListDocuments ''u1'')" and w = one_pending
      and v = ?v1 and delay = 1000 and lastError = None
      and label = "''Fetch document for batch update u1''", THEN conjunct2, THEN conjunct1] a0 a
  have b: "exec unreachable_store
        (withRetry_from 1 1000 None ?op ''Fetch document for batch update u1'') one_pending
      = exec unreachable_store
          (withRetry_from 2 2000 (Some connectionError) ?op ''Fetch document for batch update u1'')
          (backoff unreachable_store ''Fetch document for batch update u1'' 1 1000
             connectionError ?v1)"
    by (simp add: numeral_2_eq_2)
  from gate_failure_is_retried [where attempt = 3 and env = unreachable_store
      and gated = ?upd
      and guarded = "remote (UpdateDocument (Some (JStr ''doc1'')) [''guild'' \<mapsto> JStr ''g1''])"
      and f = "\<lambda>r. Return ()" and w = one_pending
      and v = ?v1 and delay = 4000 and lastError = "Some connectionError"
      and label = "''Batch update for user u1''", THEN conjunct2, THEN conjunct1] a0 a
  have b3: "exec unreachable_store
        (withRetry_from 3 4000 (Some connectionError) ?upd ''Batch update for user u1'') one_pending
      = (Inl connectionError, ?v1\<lparr>logs := logs ?v1 @ [RetryExhausted ''Batch update for user u1'']\<rparr>)"
    by simp
  have g: "isDbConnected gate_expiring"
    "clock gate_expiring - lastConnectionCheck gate_expiring = 4500"
    by (simp_all add: gate_expiring_def one_pending_def initial_def)
  have c1: "fst (exec unreachable_store (processEntry ''u1'' [''guild'' \<mapsto> JStr ''g1'']) gate_expiring)
      = Inl connectionError"
    by (simp add: processBatch_def processEntry_def updateDocument_def fetchDocument_def
        withDatabaseCheck_def withRetry_def retry_step retry_done exec_bind exec_tcatch
        exec_check exec_remote settle_fst settle_snd backoff_def retryable_def
        DocumentCache_get_def DocumentCache_set_def setTimeout_processBatch_def
        js_has_def connectionError_def one_pending_def initial_def unreachable_store_def
        numeral_2_eq_2 numeral_3_eq_3 gate_expiring_def)
  then have c: "exec unreachable_store (processEntry ''u1'' [''guild'' \<mapsto> JStr ''g1'']) gate_expiring
      = (Inl connectionError, ?w1)"
    by (simp add: prod_eq_iff)
  note inst = gate_failure_is_retried [where env = unreachable_store and userId = "''u1''"
      and flds = "[''guild'' \<mapsto> JStr ''g1'']" and w = gate_expiring and ?w1.0 = ?w1
      and updates = ?S and rest = "[]", THEN conjunct2, THEN conjunct2, THEN conjunct1]
  have "exec unreachable_store (withRetry ?op ''Fetch document for batch update u1'') gate_expiring
      = (Inl connectionError, ?w1)"
    by (simp add: processBatch_def processEntry_def updateDocument_def fetchDocument_def
        withDatabaseCheck_def withRetry_def retry_step retry_done exec_bind exec_tcatch
        exec_check exec_remote settle_fst settle_snd backoff_def retryable_def
        DocumentCache_get_def DocumentCache_set_def setTimeout_processBatch_def
        js_has_def connectionError_def one_pending_def initial_def unreachable_store_def
        numeral_2_eq_2 numeral_3_eq_3 gate_expiring_def)
  moreover have "retryable connectionError" by (simp add: retryable_def connectionError_def)
  ultimately have d: "third_attempt_threw unreachable_store ?op
        ''Fetch document for batch update u1'' connectionError ?w1"
    by (rule retry_third)
  from inst c
  have e: "exec unreachable_store (batchLoop ?S ((''u1'', [''guild'' \<mapsto> JStr ''g1'']) # []))
        gate_expiring = (Inr (), requeued ''u1'' ?S ?w1)"
    by blast
  have f: "issued (snd (exec unreachable_store processBatch gate_expiring))
       = [ListDocuments ''u1'', Sleep 1000, ListCollections, Sleep 2000, ListCollections]
   \<and> pendingUpdates (snd (exec unreachable_store processBatch gate_expiring)) = ?S
   \<and> timers (snd (exec unreachable_store processBatch gate_expiring)) = [(1, 1008150)]"
    by (simp add: processBatch_def processEntry_def updateDocument_def fetchDocument_def
        withDatabaseCheck_def withRetry_def retry_step retry_done exec_bind exec_tcatch
        exec_check exec_remote settle_fst settle_snd backoff_def retryable_def
        DocumentCache_get_def DocumentCache_set_def setTimeout_processBatch_def
        js_has_def connectionError_def one_pending_def initial_def unreachable_store_def
        numeral_2_eq_2 numeral_3_eq_3 gate_expiring_def)
  have 1: "\<forall>n. \<exists>e. outcome (unreachable_store n) = Rejected e"
    by (simp add: unreachable_store_def)
  have 2: "\<not> connectionCheckInProgress one_pending"
    and 3: "5000 \<le> clock one_pending - lastConnectionCheck one_pending"
    by (simp_all add: one_pending_def initial_def)
  have 4: "issued (snd (exec unreachable_store processBatch one_pending))
       = [ListCollections, Sleep 1000, ListCollections, Sleep 2000, ListCollections]
   \<and> pendingUpdates (snd (exec unreachable_store processBatch one_pending)) = ?S
   \<and> timers (snd (exec unreachable_store processBatch one_pending)) = [(1, 1008150)]"
    by (simp add: processBatch_def processEntry_def updateDocument_def fetchDocument_def
        withDatabaseCheck_def withRetry_def retry_step retry_done exec_bind exec_tcatch
        exec_check exec_remote settle_fst settle_snd backoff_def retryable_def
        DocumentCache_get_def DocumentCache_set_def setTimeout_processBatch_def
        js_has_def connectionError_def one_pending_def initial_def unreachable_store_def
        numeral_2_eq_2 numeral_3_eq_3)
  have 0: "code connectionError = None"
    using gate_failure_is_retried [THEN conjunct1] .
  from gate_failure_is_retried [where env = unreachable_store and w = one_pending
      and userId = "''u1''" and flds = "[''guild'' \<mapsto> JStr ''g1'']" and updates = ?S
      and rest = "[]", THEN conjunct2, THEN conjunct2, THEN conjunct2] 1 2 3
  have 5: "(\<exists>w' xs ls label.
          exec unreachable_store (batchLoop ?S ((''u1'', [''guild'' \<mapsto> JStr ''g1'']) # []))
            one_pending = (Inr (), w')
          \<and> issued w' = issued one_pending @ xs
          \<and> filter (\<lambda>r. r \<noteq> ListCollections) xs = [Sleep 1000, Sleep 2000]
          \<and> logs w' = logs one_pending @ ls
          \<and> filter (\<lambda>l. \<not> is_probe_log l) ls
               = [RetryWarn label 1 1000 (message connectionError),
                  RetryWarn label 2 2000 (message connectionError),
                  RetryExhausted label, Requeued]
          \<and> pendingUpdates w' = requeue ''u1'' ?S (pendingUpdates one_pending)
          \<and> timers w' = timers one_pending @ [(nextHandle one_pending, clock w' + 5000)]
          \<and> batchTimeout w' = Some (nextHandle one_pending))"
    by blast
  from a1 b b3 g c1 d e f 0 1 2 3 4 5 show ?thesis by blast
qed

subsection \<open>C4: rate limiting of the connection probe\<close>

text \<open>
  C4, as stated, fails. On a freshly loaded module whose store rejects the first
  request, two calls of \<^verbatim>\<open>checkDatabaseConnection\<close> in a row, the second starting
  10ms after the first, both invoke the probe, and the second returns \<^verbatim>\<open>true\<close>
  where the first returned \<^verbatim>\<open>false\<close>: a failed probe does not move
  \<^verbatim>\<open>lastConnectionCheck\<close>.
\<close>

theorem probe_twice_counterexample:
  "fst (exec recovering_store
          (bind checkDatabaseConnection (\<lambda>first.
             bind checkDatabaseConnection (\<lambda>second. Return (first, second))))
          (initial 1000000)) = Inr (False, True)
   \<and> issued (snd (exec recovering_store
          (bind checkDatabaseConnection (\<lambda>first.
             bind checkDatabaseConnection (\<lambda>second. Return (first, second))))
          (initial 1000000))) = [ListCollections, ListCollections]
   \<and> clock (snd (exec recovering_store checkDatabaseConnection (initial 1000000)))
        - clock (initial 1000000) = 10"
  by (simp add: exec_bind exec_check initial_def recovering_store_def)

text \<open>
  C4, amended. When a call invokes the probe and the probe succeeds, a second call
  that starts \<open>d < 5000\<close> milliseconds after the probe resolved (whatever the store
  would answer then) invokes no probe and returns \<^verbatim>\<open>true\<close>, the value the first
  resolved: one probe across the two calls. A call made while a probe is in flight
  invokes no probe either and returns the value of \<^verbatim>\<open>isDbConnected\<close> resolved
  before. Two calls that both start less than 5000ms after the last successful probe
  invoke no probe and return the same value.
\<close>

theorem probe_once_after_success:
  "(\<not> connectionCheckInProgress w \<and> 5000 \<le> clock w - lastConnectionCheck w
      \<and> outcome (env (length (issued w))) = Resolved v \<and> d < 5000
    \<longrightarrow> fst (exec env checkDatabaseConnection w) = Inr True
      \<and> issued (snd (exec env checkDatabaseConnection w)) = issued w @ [ListCollections]
      \<and> exec env' checkDatabaseConnection
           ((snd (exec env checkDatabaseConnection w))
              \<lparr>clock := clock (snd (exec env checkDatabaseConnection w)) + d\<rparr>)
         = (Inr True, (snd (exec env checkDatabaseConnection w))
              \<lparr>clock := clock (snd (exec env checkDatabaseConnection w)) + d\<rparr>))
   \<and> (connectionCheckInProgress w
    \<longrightarrow> exec env checkDatabaseConnection w = (Inr (isDbConnected w), w))
   \<and> (\<not> connectionCheckInProgress w \<and> clock w - lastConnectionCheck w < 5000
      \<and> clock w + d - lastConnectionCheck w < 5000
    \<longrightarrow> exec env checkDatabaseConnection w = (Inr (isDbConnected w), w)
      \<and> exec env' checkDatabaseConnection (w\<lparr>clock := clock w + d\<rparr>)
          = (Inr (isDbConnected w), w\<lparr>clock := clock w + d\<rparr>))"
  by (simp add: exec_check)

theorem probe_once_after_success_witness:
  "\<not> connectionCheckInProgress (initial 1000000)
   \<and> 5000 \<le> clock (initial 1000000) - lastConnectionCheck (initial 1000000)
   \<and> outcome (reachable_store (length (issued (initial 1000000)))) = Resolved []
   \<and> (4999::int) < 5000
   \<and> fst (exec reachable_store checkDatabaseConnection (initial 1000000)) = Inr True
   \<and> issued (snd (exec reachable_store checkDatabaseConnection (initial 1000000)))
       = issued (initial 1000000) @ [ListCollections]
   \<and> fst (exec unreachable_store checkDatabaseConnection
        ((snd (exec reachable_store checkDatabaseConnection (initial 1000000)))
           \<lparr>clock := clock (snd (exec reachable_store checkDatabaseConnection (initial 1000000)))
              + 4999\<rparr>)) = Inr True
   \<and> issued (snd (exec unreachable_store checkDatabaseConnection
        ((snd (exec reachable_store checkDatabaseConnection (initial 1000000)))
           \<lparr>clock := clock (snd (exec reachable_store checkDatabaseConnection (initial 1000000)))
              + 4999\<rparr>))) = [ListCollections]
   \<and> connectionCheckInProgress ((initial 1000000)\<lparr>connectionCheckInProgress := True\<rparr>)
   \<and> exec reachable_store checkDatabaseConnection
        ((initial 1000000)\<lparr>connectionCheckInProgress := True\<rparr>)
       = (Inr False, (initial 1000000)\<lparr>connectionCheckInProgress := True\<rparr>)
   \<and> \<not> connectionCheckInProgress two_pending
   \<and> clock two_pending - lastConnectionCheck two_pending < 5000
   \<and> clock two_pending + 4000 - lastConnectionCheck two_pending < 5000
   \<and> exec unreachable_store checkDatabaseConnection two_pending = (Inr True, two_pending)
   \<and> exec unreachable_store checkDatabaseConnection (two_pending\<lparr>clock := clock two_pending + 4000\<rparr>)
       = (Inr True, two_pending\<lparr>clock := clock two_pending + 4000\<rparr>)"
proof -
  have h: "\<not> connectionCheckInProgress (initial 1000000)
     \<and> 5000 \<le> clock (initial 1000000) - lastConnectionCheck (initial 1000000)
     \<and> outcome (reachable_store (length (issued (initial 1000000)))) = Resolved []
     \<and> (4999::int) < 5000"
    by (simp add: initial_def reachable_store_def)
  have g: "connectionCheckInProgress ((initial 1000000)\<lparr>connectionCheckInProgress := True\<rparr>)"
    by simp
  have k: "\<not> connectionCheckInProgress two_pending
     \<and> clock two_pending - lastConnectionCheck two_pending < 5000
     \<and> clock two_pending + 4000 - lastConnectionCheck two_pending < 5000"
    by (simp add: two_pending_def)
  from h probe_once_after_success [of "initial 1000000" reachable_store "[]" 4999 unreachable_store]
  have 1: "fst (exec reachable_store checkDatabaseConnection (initial 1000000)) = Inr True
      \<and> issued (snd (exec reachable_store checkDatabaseConnection (initial 1000000)))
          = issued (initial 1000000) @ [ListCollections]
      \<and> exec unreachable_store checkDatabaseConnection
           ((snd (exec reachable_store checkDatabaseConnection (initial 1000000)))
              \<lparr>clock := clock (snd (exec reachable_store checkDatabaseConnection (initial 1000000)))
                 + 4999\<rparr>)
         = (Inr True, (snd (exec reachable_store checkDatabaseConnection (initial 1000000)))
              \<lparr>clock := clock (snd (exec reachable_store checkDatabaseConnection (initial 1000000)))
                 + 4999\<rparr>)"
    by blast
  from g probe_once_after_success
    [of "(initial 1000000)\<lparr>connectionCheckInProgress := True\<rparr>" reachable_store]
  have 2: "exec reachable_store checkDatabaseConnection
        ((initial 1000000)\<lparr>connectionCheckInProgress := True\<rparr>)
       = (Inr (isDbConnected ((initial 1000000)\<lparr>connectionCheckInProgress := True\<rparr>)),
          (initial 1000000)\<lparr>connectionCheckInProgress := True\<rparr>)"
    by blast
  have 3: "isDbConnected ((initial 1000000)\<lparr>connectionCheckInProgress := True\<rparr>) = False"
    by (simp add: initial_def)
  from k probe_once_after_success [of two_pending unreachable_store _ 4000 unreachable_store]
  have 4: "exec unreachable_store checkDatabaseConnection two_pending
        = (Inr (isDbConnected two_pending), two_pending)
     \<and> exec unreachable_store checkDatabaseConnection (two_pending\<lparr>clock := clock two_pending + 4000\<rparr>)
        = (Inr (isDbConnected two_pending), two_pending\<lparr>clock := clock two_pending + 4000\<rparr>)"
    by blast
  have 5: "isDbConnected two_pending = True" by (simp add: two_pending_def)
  from h g k 1 2 3 4 5 show ?thesis by (simp add: initial_def)
qed

subsection \<open>C1: what the re-queue loop puts back\<close>

text \<open>
  C1. A pass over the snapshot \<open>A, B\<close>: the update of \<open>A\<close> is sent and succeeds
  (taking six seconds), then the store is down, the gate shuts on \<open>B\<close> three times
  and the pass takes the re-queue branch. Afterwards the pending set holds \<open>B\<close> with
  its patch and the 5000ms timer is armed, but it also holds \<open>A\<close>, whose update
  had already succeeded: the re-queue loop runs over the whole snapshot, not over
  what was left of it.
\<close>

theorem requeue_all_evaluation:
  "fst (exec slow_then_down processBatch two_pending) = Inr ()
   \<and> issued (snd (exec slow_then_down processBatch two_pending))
       = [UpdateDocument (Some (JStr ''docA'')) [''guild'' \<mapsto> JStr ''g1''],
          ListCollections, Sleep 1000, ListCollections, Sleep 2000, ListCollections]
   \<and> pendingUpdates (snd (exec slow_then_down processBatch two_pending))
       = [(''A'', [''guild'' \<mapsto> JStr ''g1'']), (''B'', [''guild'' \<mapsto> JStr ''g2''])]
   \<and> timers (snd (exec slow_then_down processBatch two_pending)) = [(1, 1014050)]
   \<and> clock (snd (exec slow_then_down processBatch two_pending)) = 1009050"
  by (simp add: processBatch_def processEntry_def updateDocument_def fetchDocument_def
        withDatabaseCheck_def withRetry_def retry_step retry_done exec_bind exec_tcatch
        exec_check exec_remote settle_fst settle_snd backoff_def retryable_def
        DocumentCache_get_def DocumentCache_set_def setTimeout_processBatch_def
        js_has_def connectionError_def two_pending_def slow_then_down_def
        numeral_2_eq_2 numeral_3_eq_3)

subsection \<open>C5: merging of queued patches\<close>

lemma map_of_js_set: "map_of (js_set k v ps) = (map_of ps)(k \<mapsto> v)"
  by (induction ps) (auto simp add: fun_eq_iff)

lemma keys_js_set: "set (map fst (js_set k v ps)) = insert k (set (map fst ps))"
proof (induction ps)
  case Nil
  then show ?case by simp
next
  case (Cons p ps)
  obtain k' v' where p: "p = (k', v')" by (cases p)
  from Cons show ?case by (simp add: p insert_commute)
qed

lemma distinct_js_set: "distinct (map fst ps) \<Longrightarrow> distinct (map fst (js_set k v ps))"
proof (induction ps)
  case Nil
  then show ?case by simp
next
  case (Cons p ps)
  obtain k' v' where p: "p = (k', v')" by (cases p)
  from Cons keys_js_set [of k v ps] show ?case
    by (auto simp add: p)
qed

lemma count_js_set:
  "distinct (map fst ps) \<Longrightarrow> length (filter (\<lambda>kv. fst kv = k) (js_set k v ps)) = 1"
proof (induction ps)
  case Nil
  then show ?case by simp
next
  case (Cons p ps)
  obtain k' v' where p: "p = (k', v')" by (cases p)
  show ?case
  proof (cases "k' = k")
    case True
    with Cons.prems have "filter (\<lambda>kv. fst kv = k) ps = []"
      by (auto simp add: p filter_empty_conv)
    with True show ?thesis by (simp add: p)
  next
    case False
    with Cons show ?thesis by (simp add: p)
  qed
qed

lemma pending_queueUpdate:
  "pendingUpdates (queueUpdate userId flds w) =
     js_set userId
       ((case js_get (pendingUpdates w) userId of Some e \<Rightarrow> e | None \<Rightarrow> Map.empty) ++ flds)
       (pendingUpdates w)"
  by (simp add: queueUpdate_def Let_def setTimeout_processBatch_def)

lemma queueUpdate_many:
  "distinct (map fst (pendingUpdates w)) \<Longrightarrow> ps \<noteq> [] \<Longrightarrow>
     js_get (pendingUpdates (foldl (\<lambda>w p. queueUpdate userId p w) w ps)) userId
       = Some (foldl (++)
           (case js_get (pendingUpdates w) userId of Some e \<Rightarrow> e | None \<Rightarrow> Map.empty) ps)
     \<and> distinct (map fst (pendingUpdates (foldl (\<lambda>w p. queueUpdate userId p w) w ps)))
     \<and> length (filter (\<lambda>kv. fst kv = userId)
          (pendingUpdates (foldl (\<lambda>w p. queueUpdate userId p w) w ps))) = 1"
proof (induction ps arbitrary: w)
  case Nil
  then show ?case by simp
next
  case (Cons p ps)
  let ?w1 = "queueUpdate userId p w"
  let ?m = "(case js_get (pendingUpdates w) userId of Some e \<Rightarrow> e | None \<Rightarrow> Map.empty) ++ p"
  have d: "distinct (map fst (pendingUpdates ?w1))"
    using Cons.prems(1) by (simp add: pending_queueUpdate distinct_js_set)
  have g: "js_get (pendingUpdates ?w1) userId = Some ?m"
    by (simp add: pending_queueUpdate js_get_def map_of_js_set)
  show ?case
  proof (cases "ps = []")
    case True
    with d g Cons.prems(1) show ?thesis
      by (simp add: pending_queueUpdate count_js_set)
  next
    case False
    from Cons.IH [OF d False] g show ?thesis by simp
  qed
qed

lemma last_write_wins:
  "(foldl (++) m ps) f =
     (case filter (\<lambda>p. p f \<noteq> None) ps of [] \<Rightarrow> m f | q # qs \<Rightarrow> last (q # qs) f)"
proof (induction ps arbitrary: m)
  case Nil
  then show ?case by simp
next
  case (Cons p ps)
  show ?case
  proof (cases "p f")
    case None
    then have "(m ++ p) f = m f" by (simp add: map_add_def)
    with None Cons [of "m ++ p"] show ?thesis by (simp split: list.splits)
  next
    case (Some y)
    then have "(m ++ p) f = p f" by (simp add: map_add_def)
    with Some Cons [of "m ++ p"] show ?thesis
      by (simp split: list.splits)
  qed
qed

text \<open>
  C5. After \<^verbatim>\<open>queueUpdate(id, patch_1)\<close>, ..., \<^verbatim>\<open>queueUpdate(id, patch_n)\<close> with no
  flush in between, the pending map has exactly one entry for \<open>id\<close>, and its patch is
  what the map held for \<open>id\<close> before (nothing, after a flush) with the patches merged
  onto it from left to right: every field has the value of the last patch that sets
  it, and a field that no patch sets keeps what it had.
\<close>

theorem queueUpdate_merges:
  assumes "distinct (map fst (pendingUpdates w))" and "ps \<noteq> []"
  shows "js_get (pendingUpdates (foldl (\<lambda>w p. queueUpdate userId p w) w ps)) userId
       = Some (foldl (++)
           (case js_get (pendingUpdates w) userId of Some e \<Rightarrow> e | None \<Rightarrow> Map.empty) ps)
     \<and> length (filter (\<lambda>kv. fst kv = userId)
          (pendingUpdates (foldl (\<lambda>w p. queueUpdate userId p w) w ps))) = 1
     \<and> (\<forall>f. foldl (++)
            (case js_get (pendingUpdates w) userId of Some e \<Rightarrow> e | None \<Rightarrow> Map.empty) ps f
          = (case filter (\<lambda>p. p f \<noteq> None) ps of
               [] \<Rightarrow> (case js_get (pendingUpdates w) userId of Some e \<Rightarrow> e | None \<Rightarrow> Map.empty) f
             | q # qs \<Rightarrow> last (q # qs) f))"
  using queueUpdate_many [OF assms, of userId]
  by (simp add: last_write_wins)

theorem queueUpdate_merges_witness:
  "distinct (map fst (pendingUpdates (initial 0)))
   \<and> [[''a'' \<mapsto> JNum 1], [''b'' \<mapsto> JNum 2], [''a'' \<mapsto> JNum 3]] \<noteq> []
   \<and> js_get (pendingUpdates (foldl (\<lambda>w p. queueUpdate ''u1'' p w) (initial 0)
         [[''a'' \<mapsto> JNum 1], [''b'' \<mapsto> JNum 2], [''a'' \<mapsto> JNum 3]])) ''u1''
       = Some [''a'' \<mapsto> JNum 3, ''b'' \<mapsto> JNum 2]
   \<and> length (filter (\<lambda>kv. fst kv = ''u1'')
        (pendingUpdates (foldl (\<lambda>w p. queueUpdate ''u1'' p w) (initial 0)
         [[''a'' \<mapsto> JNum 1], [''b'' \<mapsto> JNum 2], [''a'' \<mapsto> JNum 3]]))) = 1
   \<and> js_get (pendingUpdates (queueUpdate ''u1'' [''b'' \<mapsto> JNum 2]
         (queueUpdate ''u1'' [''a'' \<mapsto> JNum 1] (initial 0)))) ''u1''
       = Some [''a'' \<mapsto> JNum 1, ''b'' \<mapsto> JNum 2]"
proof -
  have d: "distinct (map fst (pendingUpdates (initial 0)))" by (simp add: initial_def)
  have n: "[[''a'' \<mapsto> JNum 1], [''b'' \<mapsto> JNum 2], [''a'' \<mapsto> JNum (3::int)]] \<noteq> []" by simp
  have n2: "[[''a'' \<mapsto> JNum 1], [''b'' \<mapsto> JNum (2::int)]] \<noteq> []" by simp
  have e: "js_get (pendingUpdates (initial 0)) ''u1'' = None" by (simp add: initial_def js_get_def)
  have m: "Map.empty ++ [''a'' \<mapsto> JNum 1] ++ [''b'' \<mapsto> JNum 2] ++ [''a'' \<mapsto> JNum 3]
      = [''a'' \<mapsto> JNum 3, ''b'' \<mapsto> JNum 2]"
    by (auto simp add: fun_eq_iff map_add_def)
  from queueUpdate_merges [OF d n, of "''u1''"] queueUpdate_merges [OF d n2, of "''u1''"] d n e m
  show ?thesis by simp
qed

subsection \<open>Stretches of a pass between suspensions\<close>

lemma quiet_bind: "quiet m \<Longrightarrow> (\<And>a. quiet (f a)) \<Longrightarrow> quiet (bind m f)"
  by (induction m) auto

lemma quiet_tcatch: "quiet m \<Longrightarrow> (\<And>e. quiet (h e)) \<Longrightarrow> quiet (tcatch m h)"
  by (induction m) auto

lemma wpr_bind:
  "wpr (bind m f) Q E G R w0 w = wpr m (\<lambda>a. wpr (f a) Q E G R) E G R w0 w"
  by (induction m arbitrary: w0 w) auto

lemma wpr_tcatch:
  "wpr (tcatch m h) Q E G R w0 w = wpr m Q (\<lambda>e. wpr (h e) Q E G R) G R w0 w"
  by (induction m arbitrary: w0 w) auto

lemma wpr_mono:
  "wpr m Q E G R w0 w \<Longrightarrow> (\<And>a u v. Q a u v \<Longrightarrow> Q' a u v) \<Longrightarrow> (\<And>e u v. E e u v \<Longrightarrow> E' e u v)
     \<Longrightarrow> wpr m Q' E' G R w0 w"
  by (induction m arbitrary: w0 w) auto

lemma wpr_quiet:
  assumes "quiet t"
    and stable: "\<And>u v v'. G u v \<Longrightarrow> same_manager v v' \<Longrightarrow> G u v'"
    and refl: "\<And>v. R v \<Longrightarrow> G v v"
  shows "G w0 w \<Longrightarrow> wpr t (\<lambda>a. G) (\<lambda>e. G) G R w0 w"
  using assms(1)
proof (induction t arbitrary: w0 w)
  case (Write u t)
  then show ?case using stable by auto
next
  case (Await r k)
  then show ?case using refl by auto
qed auto

lemma run_sync_wpr:
  "wpr t Q E G R w0 w \<Longrightarrow>
     (case run_sync t w of
        (w', Return a) \<Rightarrow> Q a w0 w'
      | (w', Throw e) \<Rightarrow> E e w0 w'
      | (w', Await r k) \<Rightarrow> G w0 w' \<and> (\<forall>x w''. R w'' \<longrightarrow> wpr (k x) Q E G R w'' w'')
      | (w', Read g) \<Rightarrow> False
      | (w', Write u t') \<Rightarrow> False)"
  by (induction t arbitrary: w) auto

lemma quiet_check: "quiet checkDatabaseConnection"
  by (simp add: checkDatabaseConnection_def same_manager_def split: response.splits)

lemma quiet_remote: "quiet (remote r)"
  by (simp add: remote_def split: response.splits)

lemma quiet_gated: "quiet operation \<Longrightarrow> quiet (withDatabaseCheck operation)"
  by (simp add: withDatabaseCheck_def quiet_bind quiet_check)

lemma quiet_sleep: "quiet (sleep d)"
  by (simp add: sleep_def)

lemma quiet_retry_steps:
  "quiet operation \<Longrightarrow> 4 - attempt = n
     \<Longrightarrow> quiet (withRetry_from attempt delay lastError operation context)"
proof (induction n arbitrary: attempt delay lastError)
  case 0
  then show ?case
    by (subst withRetry_from.simps) (simp add: same_manager_def split: option.splits)
next
  case (Suc n)
  from Suc.prems have "4 - (attempt + 1) = n" by simp
  from Suc.IH [OF Suc.prems(1) this]
  have next_quiet: "quiet (withRetry_from (attempt + 1) d l operation context)" for d l .
  have handler: "quiet (if code e = Some 400 \<or> code e = Some 404 then Throw e
          else if attempt < MAX_RETRIES then
            Write (\<lambda>w. w\<lparr>logs := logs w @ [RetryWarn context attempt delay (message e)]\<rparr>)
              (bind (sleep delay) (\<lambda>u.
                 withRetry_from (attempt + 1) (delay * 2) (Some e) operation context))
          else withRetry_from (attempt + 1) delay (Some e) operation context)" for e
    using next_quiet by (simp add: same_manager_def quiet_bind quiet_sleep)
  from Suc.prems have "attempt \<le> MAX_RETRIES" by simp
  then show ?case
    by (subst withRetry_from.simps) (simp only: if_True quiet_tcatch [OF Suc.prems(1) handler])
qed

lemma quiet_retry_from:
  "quiet operation \<Longrightarrow> quiet (withRetry_from attempt delay lastError operation context)"
  by (rule quiet_retry_steps [OF _ refl])

lemma quiet_retry: "quiet operation \<Longrightarrow> quiet (withRetry operation context)"
  by (simp add: withRetry_def quiet_retry_from)

lemma quiet_update: "quiet (updateDocument docId flds userId)"
  by (simp add: updateDocument_def quiet_retry quiet_bind quiet_gated quiet_remote)

lemma quiet_fetch: "quiet (fetchDocument userId)"
  by (simp add: fetchDocument_def quiet_retry quiet_gated quiet_remote)

lemma quiet_entry: "quiet (processEntry userId flds)"
  by (auto simp add: processEntry_def same_manager_def intro!: quiet_bind quiet_update quiet_fetch
      split: option.splits list.splits)


lemma same_manager_refl: "same_manager w w"
  by (simp add: same_manager_def)

lemma same_manager_trans: "same_manager u v \<Longrightarrow> same_manager v v' \<Longrightarrow> same_manager u v'"
  by (simp add: same_manager_def)

lemma same_manager_requeued:
  "same_manager u v \<Longrightarrow> same_manager (requeued userId S u) (requeued userId S v)"
  by (simp add: same_manager_def requeued_def setTimeout_processBatch_def)

lemma wpr_batchLoop:
  assumes stable: "\<And>u v v'. G u v \<Longrightarrow> same_manager v v' \<Longrightarrow> G u v'"
    and refl: "\<And>v. R v \<Longrightarrow> G v v"
    and fin: "\<And>u v. G u v \<Longrightarrow> Q () u v"
    and req: "\<And>userId u v. userId \<in> fst ` set S \<Longrightarrow> G u v \<Longrightarrow> Q () u (requeued userId S v)"
  shows "set rest \<subseteq> set S \<Longrightarrow> G w0 w \<Longrightarrow> wpr (batchLoop S rest) Q E G R w0 w"
proof (induction rest arbitrary: w0 w)
  case Nil
  then show ?case by (simp add: fin)
next
  case (Cons entry rest)
  obtain userId flds where entry: "entry = (userId, flds)" by (cases entry)
  from Cons.prems(1) have mem: "userId \<in> fst ` set S" and sub: "set rest \<subseteq> set S"
    by (force simp add: entry)+
  let ?after = "\<lambda>x. case x of Break \<Rightarrow> Return () | Continue \<Rightarrow> batchLoop S rest"
  have go_on: "wpr (batchLoop S rest) Q E G R u v" if "G u v" for u v
    using Cons.IH [OF sub that] .
  have caught: "wpr
      (if message e = ''Database connection is not available'' then
         Write (\<lambda>w. w\<lparr>pendingUpdates := requeue userId S (pendingUpdates w)\<rparr>)
           (Write (\<lambda>w. w\<lparr>logs := logs w @ [Requeued]\<rparr>)
              (Write (setTimeout_processBatch 5000) (Return Break)))
       else
         Write (\<lambda>w. w\<lparr>logs := logs w @ [BatchFailed userId (message e)]\<rparr>) (Return Continue))
      (\<lambda>x. wpr (?after x) Q E G R) E G R u v" if g: "G u v" for e u v
  proof (cases "message e = ''Database connection is not available''")
    case True
    have "(v\<lparr>pendingUpdates := requeue userId S (pendingUpdates v)\<rparr>)
        \<lparr>logs := logs (v\<lparr>pendingUpdates := requeue userId S (pendingUpdates v)\<rparr>) @ [Requeued]\<rparr>
        = v\<lparr>pendingUpdates := requeue userId S (pendingUpdates v), logs := logs v @ [Requeued]\<rparr>"
      by simp
    with True req [OF mem g] show ?thesis by (simp add: requeued_def)
  next
    case False
    have "same_manager v (v\<lparr>logs := logs v @ [BatchFailed userId (message e)]\<rparr>)"
      by (simp add: same_manager_def)
    from go_on [OF stable [OF g this]] False show ?thesis by simp
  qed
  have "wpr (processEntry userId flds) (\<lambda>a. G) (\<lambda>e. G) G R w0 w"
    using quiet_entry stable refl Cons.prems(2) by (rule wpr_quiet)
  then have "wpr (processEntry userId flds)
      (\<lambda>a. wpr (Return Continue) (\<lambda>x. wpr (?after x) Q E G R)
         (\<lambda>e. wpr (if message e = ''Database connection is not available'' then
         Write (\<lambda>w. w\<lparr>pendingUpdates := requeue userId S (pendingUpdates w)\<rparr>)
           (Write (\<lambda>w. w\<lparr>logs := logs w @ [Requeued]\<rparr>)
              (Write (setTimeout_processBatch 5000) (Return Break)))
       else
         Write (\<lambda>w. w\<lparr>logs := logs w @ [BatchFailed userId (message e)]\<rparr>) (Return Continue))
           (\<lambda>x. wpr (?after x) Q E G R) E G R) G R)
      (\<lambda>e. wpr (if message e = ''Database connection is not available'' then
         Write (\<lambda>w. w\<lparr>pendingUpdates := requeue userId S (pendingUpdates w)\<rparr>)
           (Write (\<lambda>w. w\<lparr>logs := logs w @ [Requeued]\<rparr>)
              (Write (setTimeout_processBatch 5000) (Return Break)))
       else
         Write (\<lambda>w. w\<lparr>logs := logs w @ [BatchFailed userId (message e)]\<rparr>) (Return Continue))
           (\<lambda>x. wpr (?after x) Q E G R) E G R) G R w0 w"
  proof (rule wpr_mono)
    fix a u v assume "G u v"
    then show "wpr (Return Continue) (\<lambda>x. wpr (?after x) Q E G R)
         (\<lambda>e. wpr (if message e = ''Database connection is not available'' then
         Write (\<lambda>w. w\<lparr>pendingUpdates := requeue userId S (pendingUpdates w)\<rparr>)
           (Write (\<lambda>w. w\<lparr>logs := logs w @ [Requeued]\<rparr>)
              (Write (setTimeout_processBatch 5000) (Return Break)))
       else
         Write (\<lambda>w. w\<lparr>logs := logs w @ [BatchFailed userId (message e)]\<rparr>) (Return Continue))
           (\<lambda>x. wpr (?after x) Q E G R) E G R) G R u v"
      using go_on by simp
  next
    fix e u v assume "G u v"
    then show "wpr (if message e = ''Database connection is not available'' then
         Write (\<lambda>w. w\<lparr>pendingUpdates := requeue userId S (pendingUpdates w)\<rparr>)
           (Write (\<lambda>w. w\<lparr>logs := logs w @ [Requeued]\<rparr>)
              (Write (setTimeout_processBatch 5000) (Return Break)))
       else
         Write (\<lambda>w. w\<lparr>logs := logs w @ [BatchFailed userId (message e)]\<rparr>) (Return Continue))
           (\<lambda>x. wpr (?after x) Q E G R) E G R u v"
      by (rule caught)
  qed
  then show ?case
    by (simp add: entry wpr_bind wpr_tcatch)
qed


lemma requeue_keeps:
  "key \<noteq> userId \<Longrightarrow> map_of P key = Some p \<Longrightarrow> map_of (requeue userId S P) key = Some p"
proof (induction S arbitrary: P)
  case Nil
  then show ?case by simp
next
  case (Cons entry S)
  obtain k v where entry: "entry = (k, v)" by (cases entry)
  from Cons.prems have "map_of (if k = userId \<or> \<not> js_has P k then js_set k v P else P) key = Some p"
    by (auto simp add: map_of_js_set js_has_def)
  from Cons.IH [OF Cons.prems(1) this] show ?case by (simp add: entry)
qed

lemma requeue_absent:
  "key \<notin> fst ` set S \<Longrightarrow> map_of (requeue userId S P) key = map_of P key"
proof (induction S arbitrary: P)
  case Nil
  then show ?case by simp
next
  case (Cons entry S)
  obtain k v where entry: "entry = (k, v)" by (cases entry)
  from Cons.prems have "key \<noteq> k" "key \<notin> fst ` set S" by (auto simp add: entry)
  with Cons.IH [of "if k = userId \<or> \<not> js_has P k then js_set k v P else P"]
  show ?case by (simp add: entry map_of_js_set)
qed

lemma requeue_self:
  "distinct (map fst S) \<Longrightarrow> userId \<in> fst ` set S
     \<Longrightarrow> map_of (requeue userId S P) userId = map_of S userId"
proof (induction S arbitrary: P)
  case Nil
  then show ?case by simp
next
  case (Cons entry S)
  obtain k v where entry: "entry = (k, v)" by (cases entry)
  show ?case
  proof (cases "k = userId")
    case True
    with Cons.prems(1) have "userId \<notin> fst ` set S" by (simp add: entry)
    from requeue_absent [OF this] True show ?thesis
      by (simp add: entry map_of_js_set)
  next
    case False
    with Cons.prems have "distinct (map fst S)" "userId \<in> fst ` set S" by (auto simp add: entry)
    from Cons.IH [OF this] False show ?thesis by (simp add: entry)
  qed
qed

lemma retry_tree_1:
  "withRetry_from (Suc 0) delay lastError operation context =
     tcatch operation (\<lambda>error.
       if code error = Some 400 \<or> code error = Some 404 then Throw error
       else Write (\<lambda>w. w\<lparr>logs := logs w @ [RetryWarn context 1 delay (message error)]\<rparr>)
              (bind (sleep delay) (\<lambda>u.
                 withRetry_from 2 (delay * 2) (Some error) operation context)))"
  by (subst withRetry_from.simps) (simp add: numeral_2_eq_2 cong: if_cong)

lemma retry_tree_2:
  "withRetry_from 2 delay lastError operation context =
     tcatch operation (\<lambda>error.
       if code error = Some 400 \<or> code error = Some 404 then Throw error
       else Write (\<lambda>w. w\<lparr>logs := logs w @ [RetryWarn context 2 delay (message error)]\<rparr>)
              (bind (sleep delay) (\<lambda>u.
                 withRetry_from 3 (delay * 2) (Some error) operation context)))"
  by (subst withRetry_from.simps) (simp add: numeral_3_eq_3 numeral_2_eq_2 cong: if_cong)

lemma retry_tree_3:
  "withRetry_from 3 delay lastError operation context =
     tcatch operation (\<lambda>error.
       if code error = Some 400 \<or> code error = Some 404 then Throw error
       else Write (\<lambda>w. w\<lparr>logs := logs w @ [RetryExhausted context]\<rparr>) (Throw error))"
  by (subst withRetry_from.simps, subst (2) withRetry_from.simps) (simp cong: if_cong)

lemmas loop_simps = step_def start_pass_def resume_def park_def note_request_def
  processBatch_def processEntry_def fetchDocument_def updateDocument_def withRetry_def
  retry_tree_1 retry_tree_2 retry_tree_3 withDatabaseCheck_def checkDatabaseConnection_def
  remote_def sleep_def queueUpdate_def setTimeout_processBatch_def DocumentCache_get_def
  DocumentCache_set_def js_get_def js_has_def connectionError_def initial_def Let_def

subsection \<open>C2: patches queued while a pass is running\<close>

text \<open>
  C2, as stated, fails. A pass over the snapshot \<open>A \<mapsto> {guild: g1}\<close> finds the
  store down; while it awaits the probe of its third attempt,
  \<^verbatim>\<open>queueUpdate(A, {guild: g2})\<close> is called and the new pending map holds that patch.
  The probe fails 50ms later, the pass takes the re-queue branch, and the pending map
  holds \<open>{guild: g1}\<close> for \<open>A\<close>: the running pass has replaced the patch queued
  after its snapshot.
\<close>

theorem clobbered_patch_counterexample:
  "map_option (\<lambda>c. pendingUpdates (shared c))
     (run [QueueUpdate ''A'' [''guild'' \<mapsto> JStr ''g1''], Tick 100, Fire 0,
           Tick 50, Settle 0 down, Tick 1000, Settle 0 (Resolved []), Tick 50, Settle 0 down,
           Tick 2000, Settle 0 (Resolved []),
           QueueUpdate ''A'' [''guild'' \<mapsto> JStr ''g2'']] loaded)
     = Some [(''A'', [''guild'' \<mapsto> JStr ''g2''])]
   \<and> map_option (\<lambda>c. pendingUpdates (shared c))
     (run [QueueUpdate ''A'' [''guild'' \<mapsto> JStr ''g1''], Tick 100, Fire 0,
           Tick 50, Settle 0 down, Tick 1000, Settle 0 (Resolved []), Tick 50, Settle 0 down,
           Tick 2000, Settle 0 (Resolved []),
           QueueUpdate ''A'' [''guild'' \<mapsto> JStr ''g2''],
           Tick 50, Settle 0 down] loaded)
     = Some [(''A'', [''guild'' \<mapsto> JStr ''g1''])]"
  by (simp add: loop_simps loaded_def down_def)

lemma run_sync_processBatch:
  "pendingUpdates w \<noteq> [] \<Longrightarrow>
     run_sync processBatch w =
       run_sync (batchLoop (pendingUpdates w) (pendingUpdates w))
         (w\<lparr>pendingUpdates := [], batchTimeout := None\<rparr>)"
  by (simp add: processBatch_def)

lemma wpx_bind:
  "wpx (bind m f) Q E G g w0 w = wpx m (\<lambda>g a. wpx (f a) Q E G g) E G g w0 w"
  by (induction m arbitrary: g w0 w) auto

lemma wpx_tcatch:
  "wpx (tcatch m h) Q E G g w0 w = wpx m Q (\<lambda>g e. wpx (h e) Q E G g) G g w0 w"
  by (induction m arbitrary: g w0 w) auto

lemma wpx_mono:
  "wpx m Q E G g w0 w \<Longrightarrow> (\<And>g a u v. Q g a u v \<Longrightarrow> Q' g a u v)
     \<Longrightarrow> (\<And>g e u v. E g e u v \<Longrightarrow> E' g e u v) \<Longrightarrow> wpx m Q' E' G g w0 w"
  by (induction m arbitrary: g w0 w) auto

lemma run_sync_wpx:
  "wpx t Q E G g w0 w \<Longrightarrow>
     (case run_sync t w of
        (w', Return a) \<Rightarrow> Q g a w0 w'
      | (w', Throw e) \<Rightarrow> E g e w0 w'
      | (w', Await r k) \<Rightarrow> G r w0 w' \<and> (\<forall>x w''. wpx (k x) Q E G (r, x) w'' w'')
      | (w', Read h) \<Rightarrow> False
      | (w', Write u t') \<Rightarrow> False)"
  by (induction t arbitrary: w) auto

lemma wpx_gated:
  assumes "from_snapshot S r" and "r \<noteq> ListCollections" and "\<forall>d. r \<noteq> Sleep d"
    and "from_snapshot S ListCollections"
  shows "same_manager w0 w \<Longrightarrow>
     wpx (withDatabaseCheck (remote r)) (\<lambda>g a. same_manager) (attempt_threw g0) (snapshot_wait S)
       g0 w0 w"
  using assms
  by (simp add: withDatabaseCheck_def checkDatabaseConnection_def remote_def wpx_bind
      attempt_threw_def snapshot_wait_def same_manager_def split: response.splits)


lemma snapshot_probe: "S \<noteq> [] \<Longrightarrow> from_snapshot S ListCollections"
  by (cases S) (auto simp add: from_snapshot_def entry_request_def)

lemma snapshot_sleep: "S \<noteq> [] \<Longrightarrow> from_snapshot S (Sleep d)"
  by (cases S) (auto simp add: from_snapshot_def entry_request_def)

lemma wpx_attempts:
  assumes op: "\<And>g0 w0 w. same_manager w0 w \<Longrightarrow>
        wpx operation (\<lambda>g a. same_manager) (attempt_threw g0) (snapshot_wait S) g0 w0 w"
    and S: "S \<noteq> []"
  shows third: "same_manager w0 w \<Longrightarrow>
        wpx (withRetry_from 3 delay lastError operation context) (\<lambda>g a. same_manager) entry_threw
          (snapshot_wait S) (Sleep d, x) w0 w"
    and second: "same_manager w0 w \<Longrightarrow>
        wpx (withRetry_from 2 delay lastError operation context) (\<lambda>g a. same_manager) entry_threw
          (snapshot_wait S) g0 w0 w"
    and first: "same_manager w0 w \<Longrightarrow>
        wpx (withRetry_from (Suc 0) delay lastError operation context) (\<lambda>g a. same_manager)
          entry_threw (snapshot_wait S) g0 w0 w"
proof -
  have c: "code connectionError = None" by (simp add: connectionError_def)
  show 3: "wpx (withRetry_from 3 delay lastError operation context) (\<lambda>g a. same_manager)
      entry_threw (snapshot_wait S) (Sleep d, x) w0 w" if "same_manager w0 w"
    for w0 w delay lastError d x
    unfolding retry_tree_3 wpx_tcatch
    by (rule wpx_mono [OF op [OF that]])
       (auto simp add: attempt_threw_def entry_threw_def same_manager_def)
  show 2: "wpx (withRetry_from 2 delay lastError operation context) (\<lambda>g a. same_manager)
      entry_threw (snapshot_wait S) g0 w0 w" if "same_manager w0 w"
    for w0 w delay lastError g0
    unfolding retry_tree_2 wpx_tcatch
    by (rule wpx_mono [OF op [OF that]])
       (auto simp add: attempt_threw_def entry_threw_def same_manager_def c sleep_def
          snapshot_wait_def snapshot_sleep [OF S] intro!: 3)
  show "wpx (withRetry_from (Suc 0) delay lastError operation context) (\<lambda>g a. same_manager)
      entry_threw (snapshot_wait S) g0 w0 w" if "same_manager w0 w"
    unfolding retry_tree_1 wpx_tcatch
    by (rule wpx_mono [OF op [OF that]])
       (auto simp add: attempt_threw_def entry_threw_def same_manager_def c sleep_def
          snapshot_wait_def snapshot_sleep [OF S] intro!: 2)
qed


lemma wpx_retry:
  assumes "\<And>g0 w0 w. same_manager w0 w \<Longrightarrow>
        wpx operation (\<lambda>g a. same_manager) (attempt_threw g0) (snapshot_wait S) g0 w0 w"
    and "S \<noteq> []" and "same_manager w0 w"
  shows "wpx (withRetry operation context) (\<lambda>g a. same_manager) entry_threw (snapshot_wait S)
           g0 w0 w"
  unfolding withRetry_def One_nat_def using assms by (rule wpx_attempts(3))

lemma wpx_fetch:
  assumes "(userId, flds) \<in> set S" and "same_manager w0 w"
  shows "wpx (fetchDocument userId) (\<lambda>g a. same_manager) entry_threw (snapshot_wait S) g0 w0 w"
proof -
  from assms(1) have S: "S \<noteq> []" by auto
  from assms(1) have r: "from_snapshot S (ListDocuments userId)"
    by (force simp add: from_snapshot_def entry_request_def)
  show ?thesis
    unfolding fetchDocument_def
    by (rule wpx_retry [OF wpx_gated [OF r _ _ snapshot_probe [OF S]] S assms(2)]) simp_all
qed

lemma wpx_update:
  assumes "(userId, flds) \<in> set S" and "same_manager w0 w"
  shows "wpx (updateDocument docId flds userId) (\<lambda>g a. same_manager) entry_threw
           (snapshot_wait S) g0 w0 w"
proof -
  from assms(1) have S: "S \<noteq> []" by auto
  from assms(1) have r: "from_snapshot S (UpdateDocument docId flds)"
    by (force simp add: from_snapshot_def entry_request_def)
  have "wpx (bind (withDatabaseCheck (remote (UpdateDocument docId flds))) (\<lambda>r. Return ()))
      (\<lambda>g a. same_manager) (attempt_threw g0) (snapshot_wait S) g0 w0 w"
    if "same_manager w0 w" for g0 w0 w
    unfolding wpx_bind
    by (rule wpx_mono [OF wpx_gated [OF r _ _ snapshot_probe [OF S] that]]) simp_all
  from this S assms(2) show ?thesis
    unfolding updateDocument_def by (rule wpx_retry)
qed

lemma wpx_entry:
  assumes "(userId, flds) \<in> set S" and "same_manager w0 w"
  shows "wpx (processEntry userId flds) (\<lambda>g a. same_manager) entry_threw (snapshot_wait S)
           g0 w0 w"
proof -
  let ?w = "w\<lparr>cache := snd (DocumentCache_get userId (clock w) (cache w))\<rparr>"
  from assms(2) have m: "same_manager w0 ?w" by (simp add: same_manager_def)
  have cached: "same_manager u v \<Longrightarrow> same_manager u (v\<lparr>cache := c\<rparr>)" for u v c
    by (simp add: same_manager_def)
  show ?thesis
  proof (cases "fst (DocumentCache_get userId (clock w) (cache w))")
    case (Some cachedDoc)
    have "wpx (updateDocument (cachedDoc ''$id'') flds userId)
        (\<lambda>g a. wpx (Write (\<lambda>w. w\<lparr>cache :=
                  DocumentCache_set userId (cachedDoc ++ flds) (clock w) (cache w)\<rparr>)
                  (Return ())) (\<lambda>g a. same_manager) entry_threw (snapshot_wait S) g)
        entry_threw (snapshot_wait S) g0 w0 ?w"
      by (rule wpx_mono [OF wpx_update [OF assms(1) m]]) (simp_all add: cached)
    with Some show ?thesis by (simp add: processEntry_def wpx_bind)
  next
    case None
    have "wpx (fetchDocument userId)
        (\<lambda>g documents. wpx (case documents of
                  [] \<Rightarrow> Return ()
                | d # ds \<Rightarrow>
                    bind (updateDocument (d ''$id'') flds userId) (\<lambda>u.
                      Write (\<lambda>w. w\<lparr>cache :=
                        DocumentCache_set userId (d ++ flds) (clock w) (cache w)\<rparr>)
                        (Return ()))) (\<lambda>g a. same_manager) entry_threw (snapshot_wait S) g)
        entry_threw (snapshot_wait S) g0 w0 ?w"
    proof (rule wpx_mono [OF wpx_fetch [OF assms(1) m]])
      fix g :: "request \<times> response" and documents :: "obj list" and u v
      assume uv: "same_manager u v"
      show "wpx (case documents of
                  [] \<Rightarrow> Return ()
                | d # ds \<Rightarrow>
                    bind (updateDocument (d ''$id'') flds userId) (\<lambda>u.
                      Write (\<lambda>w. w\<lparr>cache :=
                        DocumentCache_set userId (d ++ flds) (clock w) (cache w)\<rparr>)
                        (Return ()))) (\<lambda>g a. same_manager) entry_threw (snapshot_wait S) g u v"
      proof (cases documents)
        case Nil
        with uv show ?thesis by simp
      next
        case (Cons d ds)
        have "wpx (updateDocument (d ''$id'') flds userId)
            (\<lambda>g a. wpx (Write (\<lambda>w. w\<lparr>cache :=
                  DocumentCache_set userId (d ++ flds) (clock w) (cache w)\<rparr>)
                  (Return ())) (\<lambda>g a. same_manager) entry_threw (snapshot_wait S) g)
            entry_threw (snapshot_wait S) g u v"
          by (rule wpx_mono [OF wpx_update [OF assms(1) uv]]) (simp_all add: cached)
        with Cons show ?thesis by (simp add: wpx_bind)
      qed
    qed simp
    with None show ?thesis by (simp add: processEntry_def wpx_bind)
  qed
qed

lemma unavailable_requeued:
  "unavailable r x (requeued userId S v) = unavailable r x v"
  by (simp add: unavailable_def requeued_def setTimeout_processBatch_def split: request.splits)

lemma entry_threw_unavailable:
  "entry_threw g e u v \<Longrightarrow> message e = ''Database connection is not available''
     \<Longrightarrow> unavailable (fst g) (snd g) v"
  by (cases "fst g") (auto simp add: entry_threw_def unavailable_def)

lemma wpx_batchLoop:
  "set rest \<subseteq> set S \<Longrightarrow> same_manager w0 w \<Longrightarrow>
     wpx (batchLoop S rest) (pass_ends S) (\<lambda>g e u v. False) (snapshot_wait S) g w0 w"
proof (induction rest arbitrary: g w0 w)
  case Nil
  then show ?case by (simp add: pass_ends_def)
next
  case (Cons entry rest)
  obtain userId flds where entry: "entry = (userId, flds)" by (cases entry)
  from Cons.prems(1) have mem: "(userId, flds) \<in> set S" and sub: "set rest \<subseteq> set S"
    by (simp_all add: entry)
  from mem have key: "userId \<in> fst ` set S" by force
  let ?Q = "pass_ends S" and ?E = "\<lambda>(g :: request \<times> response) (e :: error) (u :: world) (v :: world). False"
  let ?G = "snapshot_wait S"
  let ?after = "\<lambda>x. case x of Break \<Rightarrow> Return () | Continue \<Rightarrow> batchLoop S rest"
  let ?handler = "\<lambda>e. if message e = ''Database connection is not available'' then
         Write (\<lambda>w. w\<lparr>pendingUpdates := requeue userId S (pendingUpdates w)\<rparr>)
           (Write (\<lambda>w. w\<lparr>logs := logs w @ [Requeued]\<rparr>)
              (Write (setTimeout_processBatch 5000) (Return Break)))
       else
         Write (\<lambda>w. w\<lparr>logs := logs w @ [BatchFailed userId (message e)]\<rparr>) (Return Continue)"
  have go_on: "wpx (batchLoop S rest) ?Q ?E ?G g u v" if "same_manager u v" for g u v
    using Cons.IH [OF sub that] .
  have caught: "wpx (?handler e) (\<lambda>g x. wpx (?after x) ?Q ?E ?G g) ?E ?G g u v"
    if t: "entry_threw g e u v" for g e u v
  proof (cases "message e = ''Database connection is not available''")
    case True
    have "(v\<lparr>pendingUpdates := requeue userId S (pendingUpdates v)\<rparr>)
        \<lparr>logs := logs (v\<lparr>pendingUpdates := requeue userId S (pendingUpdates v)\<rparr>) @ [Requeued]\<rparr>
        = v\<lparr>pendingUpdates := requeue userId S (pendingUpdates v), logs := logs v @ [Requeued]\<rparr>"
      by simp
    moreover from t have "same_manager (requeued userId S u) (requeued userId S v)"
      by (simp add: entry_threw_def same_manager_requeued)
    moreover from entry_threw_unavailable [OF t True]
    have "unavailable (fst g) (snd g) (requeued userId S v)"
      by (simp add: unavailable_requeued)
    ultimately show ?thesis using True key by (auto simp add: requeued_def pass_ends_def)
  next
    case False
    from t have "same_manager u (v\<lparr>logs := logs v @ [BatchFailed userId (message e)]\<rparr>)"
      by (simp add: entry_threw_def same_manager_def)
    from go_on [OF this] False show ?thesis by simp
  qed
  have "wpx (processEntry userId flds)
      (\<lambda>g a. wpx (Return Continue) (\<lambda>g x. wpx (?after x) ?Q ?E ?G g)
         (\<lambda>g e. wpx (?handler e) (\<lambda>g x. wpx (?after x) ?Q ?E ?G g) ?E ?G g) ?G g)
      (\<lambda>g e. wpx (?handler e) (\<lambda>g x. wpx (?after x) ?Q ?E ?G g) ?E ?G g) ?G g w0 w"
  proof (rule wpx_mono [OF wpx_entry [OF mem Cons.prems(2)]])
    fix g :: "request \<times> response" and a :: unit and u v
    assume "same_manager u v"
    then show "wpx (Return Continue) (\<lambda>g x. wpx (?after x) ?Q ?E ?G g)
         (\<lambda>g e. wpx (?handler e) (\<lambda>g x. wpx (?after x) ?Q ?E ?G g) ?E ?G g) ?G g u v"
      using go_on by simp
  next
    fix g e u v
    assume "entry_threw g e u v"
    then show "wpx (?handler e) (\<lambda>g x. wpx (?after x) ?Q ?E ?G g) ?E ?G g u v"
      by (rule caught)
  qed
  then show ?case
    by (simp add: entry wpx_bind wpx_tcatch)
qed


lemma pass_cont_rest: "pass_cont S t \<Longrightarrow> pass_rest S t"
proof (induction rule: pass_cont.induct)
  case (first w w' t)
  let ?w1 = "w\<lparr>pendingUpdates := [], batchTimeout := None\<rparr>"
  from first have "run_sync (batchLoop S S) ?w1 = (w', t)"
    by (simp add: run_sync_processBatch)
  with run_sync_wpx [OF wpx_batchLoop [OF subset_refl same_manager_refl,
        of S "(ListCollections, Resolved [])" ?w1]]
  show ?case by (cases t) (simp_all add: pass_rest_def snapshot_wait_def)
next
  case (later t x w w' t')
  show ?case
  proof (cases t)
    case (Return u)
    with later.hyps(2) show ?thesis by (auto simp add: pass_rest_def)
  next
    case (Await r k)
    with later.IH have "wpx (k x) (pass_ends S) (\<lambda>g e u v. False) (snapshot_wait S) (r, x) w w"
      by (simp add: pass_rest_def)
    from run_sync_wpx [OF this] later.hyps(2) Await show ?thesis
      by (cases t') (simp_all add: pass_rest_def snapshot_wait_def)
  qed (use later.IH in \<open>simp_all add: pass_rest_def\<close>)
qed

lemma pass_stretch_cause:
  assumes "pass_cont S t" and "run_sync (resumed t x) w = (w', t')"
  shows "(same_manager w w'
      \<or> ((\<exists>u. t' = Return u) \<and> (\<exists>r k. t = Await r k \<and> unavailable r x w')
          \<and> (\<exists>userId \<in> fst ` set S. same_manager (requeued userId S w) w')))
     \<and> (\<forall>r k. t' = Await r k \<longrightarrow> from_snapshot S r)"
proof (cases t)
  case (Return u)
  with assms(2) show ?thesis by (auto simp add: same_manager_def)
next
  case (Await r k)
  with pass_cont_rest [OF assms(1)]
  have "wpx (k x) (pass_ends S) (\<lambda>g e u v. False) (snapshot_wait S) (r, x) w w"
    by (simp add: pass_rest_def)
  from run_sync_wpx [OF this] assms(2) Await show ?thesis
    by (cases t') (auto simp add: pass_ends_def snapshot_wait_def)
qed (use pass_cont_rest [OF assms(1)] in \<open>simp_all add: pass_rest_def\<close>)

lemma off_pending_sym: "off_pending w v \<Longrightarrow> off_pending v w"
  by (cases w, cases v) (simp add: off_pending_def)

lemma off_pending_update: "off_pending w v \<Longrightarrow> v = w\<lparr>pendingUpdates := pendingUpdates v\<rparr>"
  by (cases w, cases v) (simp add: off_pending_def)

lemma blind_run:
  "blind t \<Longrightarrow> off_pending w v
     \<Longrightarrow> snd (run_sync t v) = snd (run_sync t w)
         \<and> off_pending (fst (run_sync t w)) (fst (run_sync t v))"
proof (induction t arbitrary: w v)
  case (Read h)
  from off_pending_update [OF Read.prems(2)] Read.prems(1) have "h v = h w" by (metis blind.simps(3))
  with Read.IH [of "h w" w v] Read.prems show ?case by simp
next
  case (Write u t)
  from off_pending_update [OF Write.prems(2)] Write.prems(1)
  have "off_pending (u w) (u v)" by (metis blind.simps(4))
  with Write.IH [of "u w" "u v"] Write.prems(1) show ?case by simp
qed simp_all

lemma blind_bind: "blind m \<Longrightarrow> (\<And>a. blind (f a)) \<Longrightarrow> blind (bind m f)"
  by (induction m) auto

lemma blind_tcatch: "blind m \<Longrightarrow> (\<And>e. blind (h e)) \<Longrightarrow> blind (tcatch m h)"
  by (induction m) auto

lemma blind_check: "blind checkDatabaseConnection"
  by (simp add: checkDatabaseConnection_def off_pending_def split: response.splits)

lemma blind_remote: "blind (remote r)"
  by (simp add: remote_def split: response.splits)

lemma blind_gated: "blind operation \<Longrightarrow> blind (withDatabaseCheck operation)"
  by (simp add: withDatabaseCheck_def blind_bind blind_check)

lemma blind_sleep: "blind (sleep d)"
  by (simp add: sleep_def)

lemma blind_retry:
  assumes "blind operation"
  shows "blind (withRetry operation context)"
proof -
  have log: "blind (Write (\<lambda>w. w\<lparr>logs := logs w @ [l]\<rparr>) t)" if "blind t" for l and t :: "'a task"
    using that by (simp add: off_pending_def)
  have 3: "blind (withRetry_from 3 delay lastError operation context)" for delay lastError
    unfolding retry_tree_3 by (rule blind_tcatch [OF assms]) (simp add: off_pending_def)
  have 2: "blind (withRetry_from 2 delay lastError operation context)" for delay lastError
    unfolding retry_tree_2
    by (rule blind_tcatch [OF assms]) (simp add: off_pending_def blind_bind blind_sleep 3)
  show ?thesis
    unfolding withRetry_def One_nat_def retry_tree_1
    by (rule blind_tcatch [OF assms]) (simp add: off_pending_def blind_bind blind_sleep 2)
qed

lemma blind_update: "blind (updateDocument docId flds userId)"
  by (simp add: updateDocument_def blind_retry blind_bind blind_gated blind_remote)

lemma blind_fetch: "blind (fetchDocument userId)"
  by (simp add: fetchDocument_def blind_retry blind_gated blind_remote)

lemma blind_entry: "blind (processEntry userId flds)"
  by (auto simp add: processEntry_def off_pending_def intro!: blind_bind blind_update blind_fetch
      split: option.splits list.splits)

lemma blind_batchLoop: "blind (batchLoop S rest)"
proof (induction rest)
  case Nil
  show ?case by simp
next
  case (Cons entry rest)
  obtain userId flds where entry: "entry = (userId, flds)" by (cases entry)
  show ?case
    unfolding entry batchLoop.simps
    by (intro blind_bind blind_tcatch blind_entry)
       (auto simp add: off_pending_def setTimeout_processBatch_def Cons.IH split: loop_exit.splits)
qed

lemma blind_step: "blind t \<Longrightarrow> blind (snd (run_sync t w))"
  by (induction t arbitrary: w) auto

lemma blind_resumed: "blind t \<Longrightarrow> blind (resumed t x)"
  by (cases t) auto

lemma pass_cont_blind: "pass_cont S t \<Longrightarrow> blind t"
proof (induction rule: pass_cont.induct)
  case (first w w' t)
  then have "t = snd (run_sync (batchLoop S S) (w\<lparr>pendingUpdates := [], batchTimeout := None\<rparr>))"
    by (simp add: run_sync_processBatch)
  then show ?case by (simp add: blind_step blind_batchLoop)
next
  case (later t x w w' t')
  from blind_step [OF blind_resumed [OF later.IH], of x w] later.hyps(2) show ?case by simp
qed

lemma pass_blind:
  assumes "pass_cont S t" and "run_sync (resumed t x) w = (w', t')"
  shows "snd (run_sync (resumed t x) (w\<lparr>pendingUpdates := P\<rparr>)) = t'
     \<and> (fst (run_sync (resumed t x) (w\<lparr>pendingUpdates := P\<rparr>)))\<lparr>pendingUpdates := pendingUpdates w'\<rparr> = w'"
proof -
  have "off_pending w (w\<lparr>pendingUpdates := P\<rparr>)" by (simp add: off_pending_def)
  from blind_run [OF blind_resumed [OF pass_cont_blind [OF assms(1)]] this, of x] assms(2)
  show ?thesis by (simp add: off_pending_def)
qed


lemma entry_suspends:
  "same_manager w0 w \<Longrightarrow>
     wpr (processEntry userId flds) (\<lambda>a u v. False) (\<lambda>e u v. False) same_manager (\<lambda>v. False) w0 w"
  by (simp add: processEntry_def updateDocument_def fetchDocument_def withRetry_def retry_tree_1
        withDatabaseCheck_def checkDatabaseConnection_def remote_def sleep_def connectionError_def
        wpr_bind wpr_tcatch same_manager_def split: option.splits)

lemma first_stretch:
  assumes "pendingUpdates w \<noteq> []" and "run_sync processBatch w = (w', t)"
  shows "(\<exists>r k. t = Await r k) \<and> pendingUpdates w' = [] \<and> batchTimeout w' = None"
proof -
  obtain userId flds rest where S: "pendingUpdates w = (userId, flds) # rest"
    using assms(1) by (cases "pendingUpdates w") auto
  let ?w1 = "w\<lparr>pendingUpdates := [], batchTimeout := None\<rparr>"
  have "wpr (batchLoop (pendingUpdates w) ((userId, flds) # rest))
      (\<lambda>a u v. False) (\<lambda>e u v. False) same_manager (\<lambda>v. False) ?w1 ?w1"
    using wpr_mono [OF entry_suspends [OF same_manager_refl, of userId flds ?w1]]
    by (simp add: wpr_bind wpr_tcatch)
  from run_sync_wpr [OF this] assms S show ?thesis
    by (cases t) (simp_all add: run_sync_processBatch same_manager_def)
qed

text \<open>
  C2, amended. A pass takes its snapshot \<open>S\<close> and suspends for the first time
  with the pending map empty and the timer handle cleared. It operates on the
  snapshot only: every request it waits for, then and after any resumption, is a
  connection probe, a backoff sleep, the lookup of an id of \<open>S\<close> or an update that
  carries a patch of \<open>S\<close>; and had the pending map held anything else when the pass
  was resumed, the pass would have gone on in the same way and left the same world
  behind, pending map apart. Let a patch \<open>p\<close> be pending for \<open>key\<close> when the pass is
  resumed (it was queued after the snapshot). When the pass next suspends or ends,
  \<open>p\<close> is still the pending patch of \<open>key\<close>, with one exception: the pass ends in the
  re-queue branch while processing \<open>key\<close> itself, on ``Database connection is not
  available'' (it had been waiting for a probe or a backoff sleep and the gate then
  refused, or for a remote call that was rejected with that message). Then the
  pending map is what the re-queue loop makes of it with \<open>userId = key\<close>, the entry
  of \<open>key\<close> is the snapshot's patch, and the 5000ms timer is armed.
\<close>

theorem queued_during_pass:
  assumes "pass_cont S t" and "distinct (map fst S)"
    and "run_sync (resumed t x) w = (w', t')"
    and "js_get (pendingUpdates w) key = Some p"
  shows "(js_get (pendingUpdates w') key = Some p
       \<or> ((\<exists>u. t' = Return u) \<and> key \<in> fst ` set S
           \<and> (\<exists>r k. t = Await r k \<and> unavailable r x w')
           \<and> pendingUpdates w' = requeue key S (pendingUpdates w)
           \<and> js_get (pendingUpdates w') key = js_get S key
           \<and> timers w' = timers w @ [(nextHandle w, clock w + 5000)]))
     \<and> (\<forall>r k. t' = Await r k \<longrightarrow> from_snapshot S r)
     \<and> (\<forall>P. snd (run_sync (resumed t x) (w\<lparr>pendingUpdates := P\<rparr>)) = t'
           \<and> (fst (run_sync (resumed t x) (w\<lparr>pendingUpdates := P\<rparr>)))
                 \<lparr>pendingUpdates := pendingUpdates w'\<rparr> = w')
     \<and> (\<forall>w0 w1 t1. pendingUpdates w0 = S \<and> S \<noteq> [] \<and> run_sync processBatch w0 = (w1, t1)
           \<longrightarrow> (\<exists>r k. t1 = Await r k \<and> from_snapshot S r)
               \<and> pendingUpdates w1 = [] \<and> batchTimeout w1 = None)"
proof (intro conjI)
  from pass_stretch_cause [OF assms(1,3)]
  consider "same_manager w w'"
    | userId where "\<exists>u. t' = Return u" "\<exists>r k. t = Await r k \<and> unavailable r x w'"
        "userId \<in> fst ` set S" "same_manager (requeued userId S w) w'"
    by blast
  then show "js_get (pendingUpdates w') key = Some p
       \<or> ((\<exists>u. t' = Return u) \<and> key \<in> fst ` set S
           \<and> (\<exists>r k. t = Await r k \<and> unavailable r x w')
           \<and> pendingUpdates w' = requeue key S (pendingUpdates w)
           \<and> js_get (pendingUpdates w') key = js_get S key
           \<and> timers w' = timers w @ [(nextHandle w, clock w + 5000)])"
  proof cases
    case 1
    with assms(4) show ?thesis by (simp add: same_manager_def)
  next
    case 2
    from 2(4) have p: "pendingUpdates w' = requeue userId S (pendingUpdates w)"
      and t: "timers w' = timers w @ [(nextHandle w, clock w + 5000)]"
      by (simp_all add: same_manager_def requeued_def setTimeout_processBatch_def)
    show ?thesis
    proof (cases "key = userId")
      case True
      with 2 p t requeue_self [OF assms(2) 2(3), of "pendingUpdates w"] show ?thesis
        by (simp add: js_get_def)
    next
      case False
      from requeue_keeps [OF False, of "pendingUpdates w" p S] assms(4) p show ?thesis
        by (simp add: js_get_def)
    qed
  qed
next
  from pass_stretch_cause [OF assms(1,3)]
  show "\<forall>r k. t' = Await r k \<longrightarrow> from_snapshot S r" by blast
next
  from pass_blind [OF assms(1,3)]
  show "\<forall>P. snd (run_sync (resumed t x) (w\<lparr>pendingUpdates := P\<rparr>)) = t'
           \<and> (fst (run_sync (resumed t x) (w\<lparr>pendingUpdates := P\<rparr>)))
                 \<lparr>pendingUpdates := pendingUpdates w'\<rparr> = w'"
    by blast
next
  show "\<forall>w0 w1 t1. pendingUpdates w0 = S \<and> S \<noteq> [] \<and> run_sync processBatch w0 = (w1, t1)
           \<longrightarrow> (\<exists>r k. t1 = Await r k \<and> from_snapshot S r)
               \<and> pendingUpdates w1 = [] \<and> batchTimeout w1 = None"
  proof (intro allI impI)
    fix w0 w1 t1
    assume a: "pendingUpdates w0 = S \<and> S \<noteq> [] \<and> run_sync processBatch w0 = (w1, t1)"
    then have "pass_cont S t1" by (auto intro: pass_cont.first)
    from pass_cont_rest [OF this] first_stretch [of w0 w1 t1] a
    show "(\<exists>r k. t1 = Await r k \<and> from_snapshot S r)
               \<and> pendingUpdates w1 = [] \<and> batchTimeout w1 = None"
      by (auto simp add: pass_rest_def)
  qed
qed

lemma pass_cont_stretch: "pass_cont S (snd wt) \<Longrightarrow> pass_cont S (snd (stretch wt d x))"
  by (rule pass_cont.later [where w' = "fst (stretch wt d x)"]) (simp_all add: stretch_def)

theorem queued_during_pass_witness:
  "pass_cont [(''u1'', [''guild'' \<mapsto> JStr ''g1''])] (snd third_probe)
   \<and> distinct (map fst [(''u1'', [''guild'' \<mapsto> JStr ''g1''])])
   \<and> js_get (pendingUpdates (queueUpdate ''u1'' [''guild'' \<mapsto> JStr ''g2''] (fst third_probe))) ''u1''
       = Some [''guild'' \<mapsto> JStr ''g2'']
   \<and> js_get (pendingUpdates (fst (run_sync (resumed (snd third_probe) down)
         (queueUpdate ''u1'' [''guild'' \<mapsto> JStr ''g2''] (fst third_probe))))) ''u1''
       = Some [''guild'' \<mapsto> JStr ''g1'']
   \<and> snd (run_sync (resumed (snd third_probe) down)
         (queueUpdate ''u1'' [''guild'' \<mapsto> JStr ''g2''] (fst third_probe))) = Return ()
   \<and> awaited (snd third_probe) = Some ListCollections
   \<and> unavailable ListCollections down (fst (run_sync (resumed (snd third_probe) down)
         (queueUpdate ''u1'' [''guild'' \<mapsto> JStr ''g2''] (fst third_probe))))
   \<and> js_get (pendingUpdates (queueUpdate ''u2'' [''guild'' \<mapsto> JStr ''g2''] (fst third_probe))) ''u2''
       = Some [''guild'' \<mapsto> JStr ''g2'']
   \<and> js_get (pendingUpdates (fst (run_sync (resumed (snd third_probe) down)
         (queueUpdate ''u2'' [''guild'' \<mapsto> JStr ''g2''] (fst third_probe))))) ''u2''
       = Some [''guild'' \<mapsto> JStr ''g2'']
   \<and> pass_cont [(''u1'', [''guild'' \<mapsto> JStr ''g1''])] (snd lookup)
   \<and> awaited (snd lookup) = Some (ListDocuments ''u1'')
   \<and> js_get (pendingUpdates (queueUpdate ''u1'' [''guild'' \<mapsto> JStr ''g2''] (fst lookup))) ''u1''
       = Some [''guild'' \<mapsto> JStr ''g2'']
   \<and> awaited (snd (run_sync (resumed (snd lookup) (Resolved [[''$id'' \<mapsto> JStr ''doc1'']]))
         (queueUpdate ''u1'' [''guild'' \<mapsto> JStr ''g2''] (fst lookup))))
       = Some (UpdateDocument (Some (JStr ''doc1'')) [''guild'' \<mapsto> JStr ''g1''])
   \<and> from_snapshot [(''u1'', [''guild'' \<mapsto> JStr ''g1''])]
         (UpdateDocument (Some (JStr ''doc1'')) [''guild'' \<mapsto> JStr ''g1''])
   \<and> js_get (pendingUpdates (fst (run_sync (resumed (snd lookup) (Resolved [[''$id'' \<mapsto> JStr ''doc1'']]))
         (queueUpdate ''u1'' [''guild'' \<mapsto> JStr ''g2''] (fst lookup))))) ''u1''
       = Some [''guild'' \<mapsto> JStr ''g2'']
   \<and> snd (run_sync (resumed (snd lookup) (Resolved [[''$id'' \<mapsto> JStr ''doc1'']]))
         ((queueUpdate ''u1'' [''guild'' \<mapsto> JStr ''g2''] (fst lookup))\<lparr>pendingUpdates := []\<rparr>))
       = snd (run_sync (resumed (snd lookup) (Resolved [[''$id'' \<mapsto> JStr ''doc1'']]))
         (queueUpdate ''u1'' [''guild'' \<mapsto> JStr ''g2''] (fst lookup)))
   \<and> pendingUpdates one_pending = [(''u1'', [''guild'' \<mapsto> JStr ''g1''])]
   \<and> awaited (snd (run_sync processBatch one_pending)) = Some ListCollections
   \<and> pendingUpdates (fst (run_sync processBatch one_pending)) = []
   \<and> batchTimeout (fst (run_sync processBatch one_pending)) = None"
proof -
  let ?S = "[(''u1'', [''guild'' \<mapsto> JStr ''g1''])]"
  let ?w1 = "queueUpdate ''u1'' [''guild'' \<mapsto> JStr ''g2''] (fst third_probe)"
  let ?w2 = "queueUpdate ''u2'' [''guild'' \<mapsto> JStr ''g2''] (fst third_probe)"
  let ?w3 = "queueUpdate ''u1'' [''guild'' \<mapsto> JStr ''g2''] (fst lookup)"
  let ?found = "Resolved [[''$id'' \<mapsto> JStr ''doc1'']]"
  let ?upd = "UpdateDocument (Some (JStr ''doc1'')) [''guild'' \<mapsto> JStr ''g1'']"
  have o: "pendingUpdates one_pending = ?S" by (simp add: one_pending_def)
  have p0: "pass_cont ?S (snd (run_sync processBatch one_pending))"
    by (rule pass_cont.first [where w = one_pending and w' = "fst (run_sync processBatch one_pending)"])
       (simp_all add: one_pending_def)
  then have p: "pass_cont ?S (snd third_probe)"
    unfolding third_probe_def by (intro pass_cont_stretch)
  from p0 have l: "pass_cont ?S (snd lookup)"
    unfolding lookup_def by (intro pass_cont_stretch)
  have d: "distinct (map fst ?S)" by simp
  have q1: "js_get (pendingUpdates ?w1) ''u1'' = Some [''guild'' \<mapsto> JStr ''g2'']"
    and q2: "js_get (pendingUpdates ?w2) ''u2'' = Some [''guild'' \<mapsto> JStr ''g2'']"
    by (simp_all add: loop_simps one_pending_def stretch_def third_probe_def down_def)
  have q3: "js_get (pendingUpdates ?w3) ''u1'' = Some [''guild'' \<mapsto> JStr ''g2'']"
    by (simp add: loop_simps one_pending_def stretch_def lookup_def)
  have r1: "run_sync (resumed (snd third_probe) down) ?w1
      = (fst (run_sync (resumed (snd third_probe) down) ?w1),
         snd (run_sync (resumed (snd third_probe) down) ?w1))"
    and r2: "run_sync (resumed (snd third_probe) down) ?w2
      = (fst (run_sync (resumed (snd third_probe) down) ?w2),
         snd (run_sync (resumed (snd third_probe) down) ?w2))"
    and r3: "run_sync (resumed (snd lookup) ?found) ?w3
      = (fst (run_sync (resumed (snd lookup) ?found) ?w3),
         snd (run_sync (resumed (snd lookup) ?found) ?w3))"
    and r0: "run_sync processBatch one_pending
      = (fst (run_sync processBatch one_pending), snd (run_sync processBatch one_pending))"
    by simp_all
  have e1: "js_get (pendingUpdates (fst (run_sync (resumed (snd third_probe) down) ?w1))) ''u1''
       = Some [''guild'' \<mapsto> JStr ''g1'']"
    and e2: "snd (run_sync (resumed (snd third_probe) down) ?w1) = Return ()"
    and e3: "js_get (pendingUpdates (fst (run_sync (resumed (snd third_probe) down) ?w2))) ''u2''
       = Some [''guild'' \<mapsto> JStr ''g2'']"
    and e5: "awaited (snd third_probe) = Some ListCollections"
    and e6: "unavailable ListCollections down (fst (run_sync (resumed (snd third_probe) down) ?w1))"
    by (simp_all add: loop_simps one_pending_def stretch_def third_probe_def down_def
        awaited_def unavailable_def)
  have f1: "awaited (snd lookup) = Some (ListDocuments ''u1'')"
    and f2: "awaited (snd (run_sync (resumed (snd lookup) ?found) ?w3)) = Some ?upd"
    and f3: "js_get (pendingUpdates (fst (run_sync (resumed (snd lookup) ?found) ?w3))) ''u1''
       = Some [''guild'' \<mapsto> JStr ''g2'']"
    and f0: "awaited (snd (run_sync processBatch one_pending)) = Some ListCollections"
    by (simp_all add: loop_simps one_pending_def stretch_def lookup_def awaited_def)
  note third = queued_during_pass [OF p d r1 q1]
  from third o r0
  have e4: "pendingUpdates (fst (run_sync processBatch one_pending)) = []
     \<and> batchTimeout (fst (run_sync processBatch one_pending)) = None"
    by blast
  note found = queued_during_pass [OF l d r3 q3]
  from f2 obtain k where "snd (run_sync (resumed (snd lookup) ?found) ?w3) = Await ?upd k"
    by (cases "snd (run_sync (resumed (snd lookup) ?found) ?w3)") (simp_all add: awaited_def)
  with found have f4: "from_snapshot ?S ?upd" by blast
  from found have f5: "snd (run_sync (resumed (snd lookup) ?found) (?w3\<lparr>pendingUpdates := []\<rparr>))
       = snd (run_sync (resumed (snd lookup) ?found) ?w3)"
    by blast
  from queued_during_pass [OF p d r2 q2] p d q1 q2 q3 e1 e2 e3 e4 e5 e6 f0 f1 f2 f3 f4 f5 l o
  show ?thesis by simp
qed

subsection \<open>C3: one timer, one pass\<close>

text \<open>
  C3, as stated, fails. First run: while a pass awaits the probe of its third
  attempt, \<^verbatim>\<open>queueUpdate(B, ...)\<close> finds the handle cleared and arms a 100ms timer;
  50ms later the pass takes the re-queue branch and arms the 5000ms timer: two
  timers are armed. Second run: \<^verbatim>\<open>queueUpdate(B, ...)\<close> arrives while the first
  pass awaits its first probe, its timer fires 100ms later and starts a second pass:
  two passes are suspended.
\<close>

theorem two_timers_two_passes_counterexample:
  "map_option (\<lambda>c. (timers (shared c), clock (shared c)))
     (run [QueueUpdate ''A'' [''guild'' \<mapsto> JStr ''g1''], Tick 100, Fire 0,
           Tick 50, Settle 0 down, Tick 1000, Settle 0 (Resolved []), Tick 50, Settle 0 down,
           Tick 2000, Settle 0 (Resolved []),
           QueueUpdate ''B'' [''guild'' \<mapsto> JStr ''g2''],
           Tick 50, Settle 0 down] loaded)
     = Some ([(1, 1003300), (2, 1008250)], 1003250)
   \<and> map_option (\<lambda>c. length (suspended c))
     (run [QueueUpdate ''A'' [''guild'' \<mapsto> JStr ''g1''], Tick 100, Fire 0,
           QueueUpdate ''B'' [''guild'' \<mapsto> JStr ''g2''], Tick 100, Fire 1] loaded)
     = Some 2"
  by (simp add: loop_simps loaded_def down_def)

lemma js_set_nonempty: "js_set k v ps \<noteq> []"
  by (cases ps) (auto split: if_splits)

lemma requeue_grows: "map_of P k \<noteq> None \<Longrightarrow> map_of (requeue userId S P) k \<noteq> None"
proof (induction S arbitrary: P)
  case Nil
  then show ?case by simp
next
  case (Cons entry S)
  obtain k' v where entry: "entry = (k', v)" by (cases entry)
  from Cons.prems
  have "map_of (if k' = userId \<or> \<not> js_has P k' then js_set k' v P else P) k \<noteq> None"
    by (simp add: map_of_js_set)
  from Cons.IH [OF this] show ?case by (simp add: entry)
qed

lemma requeue_has_self:
  "userId \<in> fst ` set S \<Longrightarrow> map_of (requeue userId S P) userId \<noteq> None"
proof (induction S arbitrary: P)
  case Nil
  then show ?case by simp
next
  case (Cons entry S)
  obtain k v where entry: "entry = (k, v)" by (cases entry)
  show ?case
  proof (cases "k = userId")
    case True
    have "map_of (js_set userId v P) userId \<noteq> None" by (simp add: map_of_js_set)
    from requeue_grows [OF this] True show ?thesis by (simp add: entry)
  next
    case False
    with Cons.prems have "userId \<in> fst ` set S" by (auto simp add: entry)
    from Cons.IH [OF this] False show ?thesis by (simp add: entry)
  qed
qed

lemma requeue_nonempty: "userId \<in> fst ` set S \<Longrightarrow> requeue userId S P \<noteq> []"
  using requeue_has_self [of userId S P] by auto

lemma idle_queueUpdate: "idle_ok w \<Longrightarrow> idle_ok (queueUpdate userId flds w)"
  by (auto simp add: idle_ok_def no_timer_def queueUpdate_def Let_def setTimeout_processBatch_def
      js_set_nonempty)

lemma pass_loop_single:
  "set rest \<subseteq> set S \<Longrightarrow> no_timer w
     \<Longrightarrow> wpr (batchLoop S rest) (\<lambda>u w0 w. idle_ok w) (\<lambda>e u v. False) (\<lambda>u v. no_timer v) no_timer w0 w"
proof (rule wpr_batchLoop)
  show "no_timer v \<Longrightarrow> same_manager v v' \<Longrightarrow> no_timer v'" for v v'
    by (simp add: no_timer_def same_manager_def)
  show "no_timer v \<Longrightarrow> no_timer v" for v .
  show "no_timer v \<Longrightarrow> idle_ok v" for v by (simp add: idle_ok_def)
  show "userId \<in> fst ` set S \<Longrightarrow> no_timer v \<Longrightarrow> idle_ok (requeued userId S v)" for userId v
    by (simp add: idle_ok_def no_timer_def requeued_def setTimeout_processBatch_def requeue_nonempty)
qed

lemma landing:
  assumes "wpr t (\<lambda>u w0 w. idle_ok w) (\<lambda>e u v. False) (\<lambda>u v. no_timer v) no_timer w0 w"
    and "run_sync t w = (w', t')"
  shows "single_flight (c\<lparr>shared := note_request t' w', suspended := park (clock w') t'\<rparr>)"
proof (cases t')
  case (Return u)
  with run_sync_wpr [OF assms(1)] assms(2) have "idle_ok w'" by simp
  with Return show ?thesis by (simp add: single_flight_def park_def note_request_def)
next
  case (Await r k)
  with run_sync_wpr [OF assms(1)] assms(2) have n: "no_timer w'"
    and tail: "\<forall>x w''. no_timer w'' \<longrightarrow>
       wpr (k x) (\<lambda>u w0 w. idle_ok w) (\<lambda>e u v. False) (\<lambda>u v. no_timer v) no_timer w'' w''"
    by simp_all
  from n have "no_timer (w'\<lparr>issued := issued w' @ [r]\<rparr>)" by (simp add: no_timer_def)
  with Await tail show ?thesis by (simp add: single_flight_def park_def note_request_def)
qed (use run_sync_wpr [OF assms(1)] assms(2) in simp_all)

lemma single_flight_step:
  assumes inv: "single_flight c" and calm: "calm ev c" and step: "step ev c = Some c'"
  shows "single_flight c'"
proof (cases ev)
  case (QueueUpdate userId patch)
  with calm have "suspended c = []" by (simp add: calm_def)
  with inv have "idle_ok (shared c)" by (auto simp add: single_flight_def)
  from idle_queueUpdate [OF this] \<open>suspended c = []\<close> step QueueUpdate show ?thesis
    by (auto simp add: step_def single_flight_def)
next
  case (Tick d)
  with inv step show ?thesis
    by (auto simp add: step_def single_flight_def idle_ok_def no_timer_def)
next
  case (Fire h)
  from step Fire obtain due where due: "map_of (timers (shared c)) h = Some due"
    by (auto simp add: step_def split: option.splits)
  with inv have idle: "suspended c = []" "batchTimeout (shared c) = Some h"
    "timers (shared c) = [(h, due)]" "pendingUpdates (shared c) \<noteq> []"
    by (auto simp add: single_flight_def idle_ok_def no_timer_def split: if_splits)
  let ?w1 = "(shared c)\<lparr>timers := filter (\<lambda>p. fst p \<noteq> h) (timers (shared c))\<rparr>"
  let ?S = "pendingUpdates (shared c)"
  let ?w2 = "?w1\<lparr>pendingUpdates := [], batchTimeout := None\<rparr>"
  obtain w' t' where r: "run_sync processBatch ?w1 = (w', t')"
    by (cases "run_sync processBatch ?w1")
  with idle(4) have r2: "run_sync (batchLoop ?S ?S) ?w2 = (w', t')"
    by (simp add: processBatch_def)
  from idle have "no_timer ?w2" by (simp add: no_timer_def)
  from landing [OF pass_loop_single [OF subset_refl this] r2, of "c\<lparr>shared := ?w1\<rparr>"]
  have "single_flight (c\<lparr>shared := note_request t' w', suspended := park (clock w') t'\<rparr>)"
    by simp
  moreover from step Fire due r idle(1)
  have "c' = c\<lparr>shared := note_request t' w', suspended := park (clock w') t'\<rparr>"
    by (simp add: step_def start_pass_def split: if_splits)
  ultimately show ?thesis by simp
next
  case (Settle i x)
  with step have i: "i < length (suspended c)" by (simp add: step_def split: if_splits)
  with inv obtain since r k where s: "suspended c = [(since, Await r k)]" "no_timer (shared c)"
    and tail: "\<And>x w. no_timer w \<Longrightarrow>
       wpr (k x) (\<lambda>u w0 w. idle_ok w) (\<lambda>e u v. False) (\<lambda>u v. no_timer v) no_timer w w"
    by (auto simp add: single_flight_def)
  from i s have i0: "i = 0" by simp
  from step Settle s i0 obtain y where c': "c' = resume 0 (k y) c"
    by (auto simp add: step_def split: request.splits if_splits)
  obtain w' t' where r: "run_sync (k y) (shared c) = (w', t')"
    by (cases "run_sync (k y) (shared c)")
  from landing [OF tail [OF s(2)] r, of c]
  have "single_flight (c\<lparr>shared := note_request t' w', suspended := park (clock w') t'\<rparr>)" .
  moreover from c' r s have "c' = c\<lparr>shared := note_request t' w', suspended := park (clock w') t'\<rparr>"
    by (simp add: resume_def)
  ultimately show ?thesis by simp
qed

lemma single_flight_run:
  "single_flight c \<Longrightarrow> run_calm evs c = Some c' \<Longrightarrow> single_flight c'"
proof (induction evs arbitrary: c)
  case Nil
  then show ?case by simp
next
  case (Cons ev evs)
  from Cons.prems(2) obtain c1 where "calm ev c" "step ev c = Some c1" "run_calm evs c1 = Some c'"
    by (auto split: if_splits option.splits)
  from Cons.IH [OF single_flight_step [OF Cons.prems(1) this(1,2)] this(3)] show ?case .
qed

text \<open>
  C3, amended. In every state the event loop of a freshly loaded module reaches by
  a run in which \<^verbatim>\<open>queueUpdate\<close> is not called while a pass is suspended, at most
  one timer is armed, at most one pass is in progress, and no timer is armed while a
  pass is in progress.
\<close>

theorem one_timer_one_pass:
  assumes "run_calm evs \<lparr>shared = initial now, suspended = []\<rparr> = Some c"
  shows "length (timers (shared c)) \<le> 1 \<and> length (suspended c) \<le> 1
     \<and> (suspended c \<noteq> [] \<longrightarrow> timers (shared c) = [])"
proof -
  have "single_flight \<lparr>shared = initial now, suspended = []\<rparr>"
    by (simp add: single_flight_def idle_ok_def no_timer_def initial_def)
  from single_flight_run [OF this assms] show ?thesis
    by (auto simp add: single_flight_def idle_ok_def no_timer_def)
qed


theorem one_timer_one_pass_witness:
  "map_option (\<lambda>c. (timers (shared c), length (suspended c), pendingUpdates (shared c)))
     (run_calm [QueueUpdate ''A'' [''guild'' \<mapsto> JStr ''g1''],
           QueueUpdate ''B'' [''guild'' \<mapsto> JStr ''g2''], Tick 100, Fire 0,
           Tick 50, Settle 0 down, Tick 1000, Settle 0 (Resolved []), Tick 50, Settle 0 down,
           Tick 2000, Settle 0 (Resolved []), Tick 50, Settle 0 down,
           QueueUpdate ''A'' [''rank'' \<mapsto> JNum 3]]
        \<lparr>shared = initial 1000000, suspended = []\<rparr>)
     = Some ([(1, 1008250)], 0,
         [(''A'', [''guild'' \<mapsto> JStr ''g1'', ''rank'' \<mapsto> JNum 3]), (''B'', [''guild'' \<mapsto> JStr ''g2''])])"
proof -
  let ?evs = "[QueueUpdate ''A'' [''guild'' \<mapsto> JStr ''g1''],
           QueueUpdate ''B'' [''guild'' \<mapsto> JStr ''g2''], Tick 100, Fire 0,
           Tick 50, Settle 0 down, Tick 1000, Settle 0 (Resolved []), Tick 50, Settle 0 down,
           Tick 2000, Settle 0 (Resolved []), Tick 50, Settle 0 down,
           QueueUpdate ''A'' [''rank'' \<mapsto> JNum 3]]"
  have e: "map_option (\<lambda>c. (timers (shared c), length (suspended c), pendingUpdates (shared c)))
     (run_calm ?evs \<lparr>shared = initial 1000000, suspended = []\<rparr>)
     = Some ([(1, 1008250)], 0,
         [(''A'', [''guild'' \<mapsto> JStr ''g1'', ''rank'' \<mapsto> JNum 3]), (''B'', [''guild'' \<mapsto> JStr ''g2''])])"
    by (simp add: loop_simps calm_def down_def)
  then obtain c where c: "run_calm ?evs \<lparr>shared = initial 1000000, suspended = []\<rparr> = Some c"
    by blast
  from one_timer_one_pass [OF c] e show ?thesis by simp
qed



end
